theory Spec2Isabelle
  imports Complex_Main "HOL-Library.Multiset"
begin

section \<open>Python errors\<close>

text \<open>
  Every exception the modelled code can raise is a value of \<open>py_error\<close>; a function
  that may raise returns \<open>py_error + 'a\<close>, with \<open>Inl\<close> for the exception.
  Python floats are modelled as \<open>real\<close>: arithmetic is exact, rounding is not modelled.
\<close>

datatype py_error =
  KeyError | IndexError | TypeError | ValueError | ZeroDivisionError | AttributeError | ReError

definition bind_r :: "py_error + 'a \<Rightarrow> ('a \<Rightarrow> py_error + 'b) \<Rightarrow> py_error + 'b" where
  "bind_r m f = (case m of Inl e \<Rightarrow> Inl e | Inr v \<Rightarrow> f v)"

text \<open>A list comprehension \<open>[f x for x in xs]\<close>: the first element that raises ends it.\<close>

fun collect :: "('a \<Rightarrow> py_error + 'b) \<Rightarrow> 'a list \<Rightarrow> py_error + 'b list" where
  "collect f [] = Inr []"
| "collect f (x # xs) =
     (case f x of
        Inl e \<Rightarrow> Inl e
      | Inr y \<Rightarrow> (case collect f xs of Inl e \<Rightarrow> Inl e | Inr ys \<Rightarrow> Inr (y # ys)))"

section \<open>hid/gamepad.py\<close>

record AxisConfig =
  index :: int
  inverted :: bool
  deadband :: real
  min_forward_dir :: real
  max_forward_dir :: real
  min_reverse_dir :: real
  max_reverse_dir :: real

text \<open>\<open>np.clip(a, a_min, a_max)\<close> is \<open>minimum(a_max, maximum(a, a_min))\<close>.\<close>

definition np_clip :: "real \<Rightarrow> real \<Rightarrow> real \<Rightarrow> real" where
  "np_clip a a_min a_max = min a_max (max a a_min)"

text \<open>
  \<open>Gamepad._apply_curve\<close>. The configuration values are Python floats, so the
  division \<open>/ (1.0 - cfg.deadband)\<close> raises \<open>ZeroDivisionError\<close> when the deadband is 1.
\<close>

definition apply_curve :: "real \<Rightarrow> AxisConfig \<Rightarrow> py_error + real" where
  "apply_curve value0 cfg =
     (let v = (if inverted cfg then - value0 else value0) in
      if \<bar>v\<bar> < deadband cfg then Inr 0
      else if v > 0 then
        (if 1 - deadband cfg = 0 then Inl ZeroDivisionError
         else
           let slope = (max_forward_dir cfg - min_forward_dir cfg) / (1 - deadband cfg);
               shift = max_forward_dir cfg - slope;
               w = slope * v + shift
           in Inr (np_clip w (min_forward_dir cfg) (max_forward_dir cfg)))
      else
        (if 1 - deadband cfg = 0 then Inl ZeroDivisionError
         else
           let slope = (max_reverse_dir cfg - min_reverse_dir cfg) / (1 - deadband cfg);
               shift = max_reverse_dir cfg - slope;
               w = slope * v + shift
           in Inr (np_clip w (- max_reverse_dir cfg) (- min_reverse_dir cfg))))"

text \<open>The default configuration of the forward/backward axis in \<open>GamepadConfig\<close>.\<close>

definition x_axis_config :: AxisConfig where
  "x_axis_config =
     \<lparr>index = 1, inverted = True, deadband = 0.2, min_forward_dir = 0.25,
      max_forward_dir = 1, min_reverse_dir = 0.25, max_reverse_dir = 1\<rparr>"

section \<open>utils/dict_tools.py\<close>

text \<open>\<open>list.index(key)\<close>: the position of the first occurrence, \<open>ValueError\<close> when absent.\<close>

fun list_index :: "'a list \<Rightarrow> 'a \<Rightarrow> py_error + int" where
  "list_index [] key = Inl ValueError"
| "list_index (x # xs) key =
     (if x = key then Inr 0
      else (case list_index xs key of Inl e \<Rightarrow> Inl e | Inr i \<Rightarrow> Inr (i + 1)))"

text \<open>
  \<open>inputs[i]\<close> on a list: a negative index counts from the end, an index out of range
  raises \<open>IndexError\<close>.
\<close>

definition getitem :: "'a list \<Rightarrow> int \<Rightarrow> py_error + 'a" where
  "getitem xs i =
     (if 0 \<le> i \<and> i < int (length xs) then Inr (xs ! nat i)
      else if i < 0 \<and> - int (length xs) \<le> i then Inr (xs ! nat (int (length xs) + i))
      else Inl IndexError)"

definition reorder :: "'a list \<Rightarrow> int list \<Rightarrow> py_error + 'a list" where
  "reorder inputs idxs = collect (getitem inputs) idxs"

definition find_ordering :: "'a list \<Rightarrow> 'a list \<Rightarrow> py_error + int list" where
  "find_ordering input output = collect (list_index input) output"

text \<open>
  The composition of the round-trip property: reorder by \<open>find_ordering(A, B)\<close>, then by
  \<open>find_ordering(B, A)\<close>.
\<close>

definition reorder_round_trip :: "'b list \<Rightarrow> 'a list \<Rightarrow> 'a list \<Rightarrow> py_error + 'b list" where
  "reorder_round_trip L A B =
     bind_r (find_ordering A B) (\<lambda>ab.
     bind_r (reorder L ab) (\<lambda>M.
     bind_r (find_ordering B A) (\<lambda>ba.
     reorder M ba)))"

text \<open>The position \<open>list.index\<close> finds, as a total function, for stating lemmas.\<close>

fun first_pos :: "'a list \<Rightarrow> 'a \<Rightarrow> nat" where
  "first_pos [] key = 0"
| "first_pos (x # xs) key = (if x = key then 0 else Suc (first_pos xs key))"

text \<open>
  A Python \<open>dict\<close> with string keys is an association list in insertion order, each key
  once. The values are JSON values as \<open>json.load\<close> gives them; \<open>JNull\<close> is Python's
  \<open>None\<close>, and a number is a \<open>real\<close> whether it was written as an integer or not.
\<close>

datatype json =
  JNull | JBool bool | JNum real | JStr string | JArr "json list" | JObj "(string \<times> json) list"

type_synonym pydict = "(string \<times> json) list"

text \<open>\<open>data[key] = value\<close>: an existing key keeps its place, a new one goes last.\<close>

fun dict_set :: "pydict \<Rightarrow> string \<Rightarrow> json \<Rightarrow> pydict" where
  "dict_set [] key v = [(key, v)]"
| "dict_set ((k, old) # rest) key v =
     (if k = key then (k, v) # rest else (k, old) # dict_set rest key v)"

definition dict_from_lists :: "string list \<Rightarrow> json list \<Rightarrow> pydict" where
  "dict_from_lists keys vals = foldl (\<lambda>d (k, v). dict_set d k v) [] (zip keys vals)"

text \<open>\<open>data.get(key)\<close> gives \<open>None\<close> for a key that is not there.\<close>

definition dict_to_list :: "pydict \<Rightarrow> string list \<Rightarrow> json list" where
  "dict_to_list data keys =
     map (\<lambda>key. case map_of data key of None \<Rightarrow> JNull | Some v \<Rightarrow> v) keys"

text \<open>A compiled regex is the predicate \<open>regex.match(key)\<close> on keys.\<close>

definition set_matching :: "pydict \<Rightarrow> (string \<Rightarrow> bool) \<Rightarrow> json \<Rightarrow> pydict" where
  "set_matching data regex v =
     map (\<lambda>(key, old). if regex key then (key, v) else (key, old)) data"

section \<open>orbit/orbit_constants.py\<close>

definition ordered_joint_names_orbit :: "string list" where
  "ordered_joint_names_orbit =
     [''fl_hx'', ''fr_hx'', ''hl_hx'', ''hr_hx'',
      ''fl_hy'', ''fr_hy'', ''hl_hy'', ''hr_hy'',
      ''fl_kn'', ''fr_kn'', ''hl_kn'', ''hr_kn'']"

section \<open>orbit/orbit_configuration.py\<close>

record OrbitConfig =
  kp :: pydict
  kd :: pydict
  default_joints :: pydict
  standing_height :: json
  action_scale :: json

text \<open>
  Subscripts on a loaded JSON value. \<open>v[key]\<close> with a string key raises \<open>KeyError\<close>
  on a dict without the key and \<open>TypeError\<close> on anything that is not a dict.
  \<open>v[i]\<close> with an integer literal indexes a list or a string; on a dict it raises
  \<open>KeyError\<close>, its keys being strings. \<open>v.keys()\<close> exists on a dict only.
\<close>

fun subscript_key :: "json \<Rightarrow> string \<Rightarrow> py_error + json" where
  "subscript_key (JObj kvs) key =
     (case map_of kvs key of None \<Rightarrow> Inl KeyError | Some v \<Rightarrow> Inr v)"
| "subscript_key v key = Inl TypeError"

fun subscript_idx :: "json \<Rightarrow> int \<Rightarrow> py_error + json" where
  "subscript_idx (JArr xs) i = getitem xs i"
| "subscript_idx (JStr s) i = bind_r (getitem s i) (\<lambda>c. Inr (JStr [c]))"
| "subscript_idx (JObj kvs) i = Inl KeyError"
| "subscript_idx v i = Inl TypeError"

fun subscript_path :: "json \<Rightarrow> string list \<Rightarrow> py_error + json" where
  "subscript_path v [] = Inr v"
| "subscript_path v (key # keys) =
     (case subscript_key v key of Inl e \<Rightarrow> Inl e | Inr w \<Rightarrow> subscript_path w keys)"

fun keys_of :: "json \<Rightarrow> py_error + string list" where
  "keys_of (JObj kvs) = Inr (map fst kvs)"
| "keys_of v = Inl AttributeError"

text \<open>
  Python's \<open>re\<close> module is not part of the repository: the regex engine is a parameter,
  giving for a pattern the compiled matcher, or nothing when the pattern does not compile
  (\<open>re.error\<close>). \<open>re.compile\<close> of a value that is not a string raises \<open>TypeError\<close>.
\<close>

type_synonym regex_engine = "string \<Rightarrow> (string \<Rightarrow> bool) option"

fun re_compile :: "regex_engine \<Rightarrow> json \<Rightarrow> py_error + (string \<Rightarrow> bool)" where
  "re_compile engine (JStr pattern) =
     (case engine pattern of None \<Rightarrow> Inl ReError | Some regex \<Rightarrow> Inr regex)"
| "re_compile engine v = Inl TypeError"

text \<open>A \<open>for\<close> loop over a list whose body may raise: the first exception ends it.\<close>

fun for_each :: "('a \<Rightarrow> 's \<Rightarrow> py_error + 's) \<Rightarrow> 'a list \<Rightarrow> 's \<Rightarrow> py_error + 's" where
  "for_each body [] s = Inr s"
| "for_each body (x # xs) s =
     (case body x s of Inl e \<Rightarrow> Inl e | Inr s' \<Rightarrow> for_each body xs s')"

text \<open>\<open>re.compile(actuators[group]["joint_names_expr"][0])\<close>\<close>

definition actuator_regex :: "regex_engine \<Rightarrow> json \<Rightarrow> string \<Rightarrow> py_error + (string \<Rightarrow> bool)" where
  "actuator_regex engine actuators grp =
     bind_r (subscript_path actuators [grp, ''joint_names_expr'']) (\<lambda>exprs.
     bind_r (subscript_idx exprs 0) (\<lambda>expr.
     re_compile engine expr))"

text \<open>The body of the loop over the actuator groups; the state is \<open>(joint_kp, joint_kd)\<close>.\<close>

definition set_actuator_gains ::
  "regex_engine \<Rightarrow> json \<Rightarrow> string \<Rightarrow> pydict \<times> pydict \<Rightarrow> py_error + pydict \<times> pydict" where
  "set_actuator_gains engine actuators grp gains =
     bind_r (actuator_regex engine actuators grp) (\<lambda>regex.
     bind_r (subscript_path actuators [grp, ''stiffness'']) (\<lambda>stiffness.
     bind_r (subscript_path actuators [grp, ''damping'']) (\<lambda>damping.
     Inr (set_matching (fst gains) regex stiffness, set_matching (snd gains) regex damping))))"

text \<open>The body of the loop over the default joint expressions.\<close>

definition set_joint_offsets ::
  "regex_engine \<Rightarrow> json \<Rightarrow> string \<Rightarrow> pydict \<Rightarrow> py_error + pydict" where
  "set_joint_offsets engine default_joint_data expression joint_offsets =
     bind_r (re_compile engine (JStr expression)) (\<lambda>regex.
     bind_r (subscript_key default_joint_data expression) (\<lambda>v.
     Inr (set_matching joint_offsets regex v)))"

text \<open>
  \<open>load_configuration\<close>, from the parsed file \<open>env_config\<close> on (opening and parsing the
  file are outside the model).
\<close>

definition load_configuration :: "regex_engine \<Rightarrow> json \<Rightarrow> py_error + OrbitConfig" where
  "load_configuration engine env_config =
     (let joint_kp = dict_from_lists ordered_joint_names_orbit (replicate 12 JNull);
          joint_kd = dict_from_lists ordered_joint_names_orbit (replicate 12 JNull);
          joint_offsets = dict_from_lists ordered_joint_names_orbit (replicate 12 JNull)
      in
      bind_r (subscript_path env_config [''scene'', ''robot'', ''actuators'']) (\<lambda>actuators.
      bind_r (keys_of actuators) (\<lambda>groups.
      bind_r (for_each (set_actuator_gains engine actuators) groups (joint_kp, joint_kd)) (\<lambda>gains.
      bind_r (subscript_path env_config [''scene'', ''robot'', ''init_state'', ''joint_pos''])
        (\<lambda>default_joint_data.
      bind_r (keys_of default_joint_data) (\<lambda>default_joint_expressions.
      bind_r (for_each (set_joint_offsets engine default_joint_data)
                default_joint_expressions joint_offsets) (\<lambda>offsets.
      bind_r (subscript_path env_config [''actions'', ''joint_pos'', ''scale'']) (\<lambda>scale.
      bind_r (subscript_path env_config [''scene'', ''robot'', ''init_state'', ''pos'']) (\<lambda>pos.
      bind_r (subscript_idx pos 2) (\<lambda>height.
      Inr \<lparr>kp = fst gains, kd = snd gains, default_joints = offsets,
           standing_height = height, action_scale = scale\<rparr>))))))))))"

text \<open>
  For stating what a malformed file is: the entries \<open>load_configuration\<close> reads by
  key, and whether one of them is absent (or sits in something that is not a dict).
\<close>

definition required_paths :: "string list list" where
  "required_paths =
     [[''scene'', ''robot'', ''actuators''],
      [''scene'', ''robot'', ''init_state'', ''joint_pos''],
      [''actions'', ''joint_pos'', ''scale''],
      [''scene'', ''robot'', ''init_state'', ''pos'']]"

definition missing_required_key :: "json \<Rightarrow> bool" where
  "missing_required_key env_config \<longleftrightarrow>
     (\<exists>path \<in> set required_paths. isl (subscript_path env_config path))
   \<or> (case subscript_path env_config [''scene'', ''robot'', ''actuators''] of
         Inl e \<Rightarrow> False
       | Inr actuators \<Rightarrow>
           (case keys_of actuators of
              Inl e \<Rightarrow> False
            | Inr grps \<Rightarrow>
                (\<exists>grp \<in> set grps. \<exists>key \<in> set [''joint_names_expr'', ''stiffness'', ''damping''].
                    isl (subscript_path actuators [grp, key]))))"

text \<open>Whether the regex of some actuator group matches the joint name.\<close>

definition matched_by_actuator :: "regex_engine \<Rightarrow> json \<Rightarrow> string \<Rightarrow> bool" where
  "matched_by_actuator engine env_config joint =
     (case subscript_path env_config [''scene'', ''robot'', ''actuators''] of
        Inl e \<Rightarrow> False
      | Inr actuators \<Rightarrow>
          (case keys_of actuators of
             Inl e \<Rightarrow> False
           | Inr grps \<Rightarrow>
               (\<exists>grp \<in> set grps.
                  (case actuator_regex engine actuators grp of
                     Inl e \<Rightarrow> False
                   | Inr regex \<Rightarrow> regex joint))))"

text \<open>
  For the examples: on a pattern of letters, digits and underscores only,
  \<open>re.compile(pattern).match(key)\<close> holds exactly when \<open>key\<close> starts with \<open>pattern\<close>.
  The examples use this engine on such patterns only.
\<close>

definition literal_engine :: regex_engine where
  "literal_engine pattern = Some (\<lambda>key. take (length pattern) key = pattern)"

text \<open>
  A training configuration whose only actuator group covers the front left leg:
  \<^verbatim>\<open>{"scene": {"robot": {"actuators": {"front_left": {"joint_names_expr": ["fl_"],
        "stiffness": 60, "damping": 1.5}},
      "init_state": {"joint_pos": {"fl_": 0.1}, "pos": [0, 0, 0.5]}}},
    "actions": {"joint_pos": {"scale": 0.2}}}\<close>
\<close>

definition front_left_only :: json where
  "front_left_only =
     JObj [(''scene'', JObj [(''robot'', JObj
             [(''actuators'', JObj [(''front_left'', JObj
                 [(''joint_names_expr'', JArr [JStr ''fl_'']),
                  (''stiffness'', JNum 60), (''damping'', JNum 1.5)])]),
              (''init_state'', JObj
                 [(''joint_pos'', JObj [(''fl_'', JNum 0.1)]),
                  (''pos'', JArr [JNum 0, JNum 0, JNum 0.5])])])]),
           (''actions'', JObj [(''joint_pos'', JObj [(''scale'', JNum 0.2)])])]"

text \<open>The same file without the \<open>"actions"\<close> entry.\<close>

definition front_left_no_actions :: json where
  "front_left_no_actions =
     JObj [(''scene'', JObj [(''robot'', JObj
             [(''actuators'', JObj [(''front_left'', JObj
                 [(''joint_names_expr'', JArr [JStr ''fl_'']),
                  (''stiffness'', JNum 60), (''damping'', JNum 1.5)])]),
              (''init_state'', JObj
                 [(''joint_pos'', JObj [(''fl_'', JNum 0.1)]),
                  (''pos'', JArr [JNum 0, JNum 0, JNum 0.5])])])])]"

section \<open>orbit/observations.py\<close>

text \<open>
  The fields of the robot state message that the code reads: the velocity of the body in
  the odom frame (linear and angular, as \<open>(x, y, z)\<close>), the rotation of
  \<open>odom_tform_body\<close> as \<open>(w, x, y, z)\<close>, the joint states in the robot's joint order,
  and the acquisition time in seconds.
\<close>

type_synonym vec3 = "real \<times> real \<times> real"

record RobotState =
  linear_velocity :: vec3
  angular_velocity :: vec3
  rotation :: "real \<times> vec3"
  position :: "real list"
  velocity :: "real list"
  load :: "real list"
  acquisition_timestamp :: real

text \<open>
  The quaternion library (spatialmath) is not part of the repository; it is modelled by
  what its operations compute. \<open>UnitQuaternion(s, v)\<close> scales the quaternion to length
  one and refuses one of length zero, \<open>inv()\<close> conjugates, and the product with a
  3-vector rotates it. For the unit quaternion \<open>(s, u) / n\<close> the rotated vector is
  \<open>v + (s t + u \<times> t) / n\<^sup>2\<close> with \<open>t = 2 (u \<times> v)\<close>: the model divides by the squared
  length \<open>n\<^sup>2\<close>, which needs no square root.
\<close>

definition cross :: "vec3 \<Rightarrow> vec3 \<Rightarrow> vec3" where
  "cross a b =
     (case a of (a1, a2, a3) \<Rightarrow> case b of (b1, b2, b3) \<Rightarrow>
        (a2 * b3 - a3 * b2, a3 * b1 - a1 * b3, a1 * b2 - a2 * b1))"

definition inv_quaternion :: "real \<times> vec3 \<Rightarrow> real \<times> vec3" where
  "inv_quaternion q = (case q of (s, x, y, z) \<Rightarrow> (s, - x, - y, - z))"

definition rotate :: "real \<times> vec3 \<Rightarrow> real \<Rightarrow> vec3 \<Rightarrow> real list" where
  "rotate q n2 v =
     (case q of (s, u) \<Rightarrow>
        case cross u v of (c1, c2, c3) \<Rightarrow>
        case cross u (2 * c1, 2 * c2, 2 * c3) of (d1, d2, d3) \<Rightarrow>
        case v of (v1, v2, v3) \<Rightarrow>
          [v1 + (s * (2 * c1) + d1) / n2, v2 + (s * (2 * c2) + d2) / n2,
           v3 + (s * (2 * c3) + d3) / n2])"

text \<open>\<open>odom_r_base.inv() * vector\<close>, as the three observation functions compute it.\<close>

definition to_base_frame :: "RobotState \<Rightarrow> vec3 \<Rightarrow> py_error + real list" where
  "to_base_frame state v =
     (case rotation state of (s, x, y, z) \<Rightarrow>
        let n2 = s * s + x * x + y * y + z * z
        in if n2 = 0 then Inl ValueError
           else Inr (rotate (inv_quaternion (s, x, y, z)) n2 v))"

definition get_base_linear_velocity :: "RobotState \<Rightarrow> py_error + real list" where
  "get_base_linear_velocity state = to_base_frame state (linear_velocity state)"

definition get_base_angular_velocity :: "RobotState \<Rightarrow> py_error + real list" where
  "get_base_angular_velocity state = to_base_frame state (angular_velocity state)"

definition get_projected_gravity :: "RobotState \<Rightarrow> py_error + real list" where
  "get_projected_gravity state = to_base_frame state (0, 0, - 1)"

text \<open>
  A configuration value used as a number: a JSON number, or a boolean (a Python \<open>bool\<close>
  is an \<open>int\<close>); arithmetic of a float with anything else raises \<open>TypeError\<close>.
\<close>

fun num_of :: "json \<Rightarrow> py_error + real" where
  "num_of (JNum r) = Inr r"
| "num_of (JBool b) = Inr (if b then 1 else 0)"
| "num_of v = Inl TypeError"

text \<open>
  \<open>spot.constants\<close> is not among the sources: the robot's joint order
  \<open>ordered_joint_names_bosdyn\<close> is a parameter of everything that uses it.
  \<open>list(map(sub, pos, default_joints))\<close> stops at the shorter list.
\<close>

definition get_joint_positions ::
  "string list \<Rightarrow> RobotState \<Rightarrow> OrbitConfig \<Rightarrow> py_error + real list" where
  "get_joint_positions ordered_joint_names_bosdyn state config =
     bind_r (find_ordering ordered_joint_names_bosdyn ordered_joint_names_orbit) (\<lambda>spot_to_orbit.
     bind_r (reorder (position state) spot_to_orbit) (\<lambda>pos.
     collect (\<lambda>(p, d). bind_r (num_of d) (\<lambda>r. Inr (p - r)))
       (zip pos (dict_to_list (default_joints config) ordered_joint_names_orbit))))"

definition get_joint_velocity :: "string list \<Rightarrow> RobotState \<Rightarrow> py_error + real list" where
  "get_joint_velocity ordered_joint_names_bosdyn state =
     bind_r (find_ordering ordered_joint_names_bosdyn ordered_joint_names_orbit) (\<lambda>spot_to_orbit.
     reorder (velocity state) spot_to_orbit)"

section \<open>orbit/onnx_command_generator.py\<close>

record OnnxControllerContext =
  event :: bool
  latest_state :: "RobotState option"
  velocity_cmd :: "real list"
  count_ctx :: int

definition StateHandler_call :: "RobotState \<Rightarrow> OnnxControllerContext \<Rightarrow> OnnxControllerContext" where
  "StateHandler_call state context = context\<lparr>latest_state := Some state, event := True\<rparr>"

text \<open>
  What is fixed when the generator is constructed, and the constants of
  \<open>spot.constants\<close>, which are not among the sources. The inference session is an
  opaque function from the observation to the action, which may raise.
\<close>

record Setup =
  config :: OrbitConfig
  policy :: "real list \<Rightarrow> py_error + real list"
  ordered_joint_names_bosdyn :: "string list"
  DEFAULT_K_Q_P :: "real list"
  DEFAULT_K_QD_P :: "real list"

text \<open>The attributes of the generator that change: \<open>_last_action\<close>, \<open>_count\<close>, \<open>_init_pos\<close>, \<open>_init_load\<close>.\<close>

record OnnxCommandGenerator =
  last_action :: "real list"
  count_gen :: int
  init_pos :: "real list option"
  init_load :: "real list option"

text \<open>
  The command message. The request timestamp of the header (the wall clock) is left out;
  \<open>cmd_gains\<close> is present when the branch that fills \<open>k_q_p\<close> and \<open>k_qd_p\<close> was taken. The
  message fields are taken as unbounded numbers.
\<close>

record Command =
  client_name :: string
  cmd_gains :: "(real list \<times> real list) option"
  cmd_position :: "real list"
  cmd_velocity :: "real list"
  cmd_load :: "real list"
  end_time :: real
  extrapolation_nanos :: int
  user_command_key :: int

definition collect_inputs ::
  "Setup \<Rightarrow> OnnxControllerContext \<Rightarrow> OnnxCommandGenerator \<Rightarrow> RobotState \<Rightarrow> py_error + real list" where
  "collect_inputs S context self state =
     bind_r (get_base_linear_velocity state) (\<lambda>lin.
     bind_r (get_base_angular_velocity state) (\<lambda>ang.
     bind_r (get_projected_gravity state) (\<lambda>grav.
     bind_r (get_joint_positions (ordered_joint_names_bosdyn S) state (config S)) (\<lambda>pos.
     bind_r (get_joint_velocity (ordered_joint_names_bosdyn S) state) (\<lambda>vel.
     Inr (lin @ ang @ grav @ velocity_cmd context @ pos @ vel @ last_action self))))))"

text \<open>
  The post-processing in \<open>__call__\<close>: action scale, startup ramp \<open>test_scale\<close>, offsets,
  and the reordering to the robot's joint order. \<open>map\<close> over two lists stops at the
  shorter one.
\<close>

definition post_process :: "Setup \<Rightarrow> int \<Rightarrow> real list \<Rightarrow> py_error + real list" where
  "post_process S cnt output =
     (let test_scale = min (0.1 * real_of_int cnt) 1 in
      bind_r (collect (\<lambda>(a, x). bind_r (num_of a) (\<lambda>r. Inr (r * x)))
                (zip (replicate 12 (action_scale (config S))) output)) (\<lambda>scaled_output.
      let test_scaled = map (\<lambda>(t, x). t * x) (zip (replicate 12 test_scale) scaled_output);
          offsets = dict_to_list (default_joints (config S)) ordered_joint_names_orbit
      in
      bind_r (collect (\<lambda>(x, d). bind_r (num_of d) (\<lambda>r. Inr (x + r)))
                (zip test_scaled offsets)) (\<lambda>shifted_output.
      bind_r (find_ordering ordered_joint_names_orbit (ordered_joint_names_bosdyn S))
        (\<lambda>orbit_to_spot.
      reorder shifted_output orbit_to_spot))))"

definition create_proto ::
  "Setup \<Rightarrow> OnnxCommandGenerator \<Rightarrow> RobotState \<Rightarrow> real list \<Rightarrow> py_error + Command" where
  "create_proto S self state pos_command =
     (let k_q_p = dict_to_list (kp (config S)) (ordered_joint_names_bosdyn S);
          k_qd_p = dict_to_list (kd (config S)) (ordered_joint_names_bosdyn S);
          N_DOF = length pos_command
      in
      bind_r (if count_gen self = 1
              then bind_r (collect num_of k_q_p) (\<lambda>a.
                   bind_r (collect num_of k_qd_p) (\<lambda>b. Inr (Some (a, b))))
              else Inr None) (\<lambda>g.
      Inr \<lparr>client_name = ''rl_example_client'', cmd_gains = g,
           cmd_position = pos_command, cmd_velocity = replicate N_DOF 0,
           cmd_load = replicate N_DOF 0,
           end_time = acquisition_timestamp state + 0.1,
           extrapolation_nanos = 5000000,
           user_command_key = count_gen self\<rparr>))"

definition create_proto_hold ::
  "Setup \<Rightarrow> OnnxControllerContext \<Rightarrow> OnnxCommandGenerator \<Rightarrow> py_error + Command" where
  "create_proto_hold S context self =
     (case init_pos self of
        None \<Rightarrow> Inl TypeError
      | Some pos \<Rightarrow>
     (case init_load self of
        None \<Rightarrow> Inl TypeError
      | Some ld \<Rightarrow>
          if length pos < 12 \<or> length ld < 12 then Inl IndexError
          else
     (case latest_state context of
        None \<Rightarrow> Inl AttributeError
      | Some state \<Rightarrow>
          Inr \<lparr>client_name = ''rl_example_client'',
               cmd_gains = (if count_gen self = 1
                        then Some (take 12 (DEFAULT_K_Q_P S), take 12 (DEFAULT_K_QD_P S))
                        else None),
               cmd_position = take 12 pos, cmd_velocity = replicate 12 0,
               cmd_load = take 12 ld,
               end_time = acquisition_timestamp state + 0.1,
               extrapolation_nanos = 5000000,
               user_command_key = count_gen self\<rparr>)))"

text \<open>
  \<open>__call__\<close>, from the observation to the command; the first component of the result
  is the policy output, kept as \<open>_last_action\<close>.
\<close>

definition compute_command ::
  "Setup \<Rightarrow> OnnxControllerContext \<Rightarrow> OnnxCommandGenerator \<Rightarrow> RobotState
     \<Rightarrow> py_error + real list \<times> Command" where
  "compute_command S context self state =
     bind_r (collect_inputs S context self state) (\<lambda>input_list.
     bind_r (policy S input_list) (\<lambda>output.
     bind_r (post_process S (count_gen self) output) (\<lambda>reordered_output.
     bind_r (create_proto S self state reordered_output) (\<lambda>proto.
     Inr (output, proto)))))"

text \<open>
  \<open>__call__\<close> with its effects: the result (a command or the exception raised), the
  generator and the context afterwards. An exception raised after the initial joint
  positions were cached leaves them cached and the counters as they were. One call sees
  one \<open>latest_state\<close>.
\<close>

definition generator_call ::
  "Setup \<Rightarrow> OnnxControllerContext \<Rightarrow> OnnxCommandGenerator
     \<Rightarrow> (py_error + Command) \<times> OnnxControllerContext \<times> OnnxCommandGenerator" where
  "generator_call S context self =
     (case latest_state context of
        None \<Rightarrow> (Inl AttributeError, context, self)
      | Some state \<Rightarrow>
          let self1 = (if init_pos self = None
                       then self\<lparr>init_pos := Some (position state), init_load := Some (load state)\<rparr>
                       else self)
          in (case compute_command S context self1 state of
                Inl e \<Rightarrow> (Inl e, context, self1)
              | Inr (output, proto) \<Rightarrow>
                  (Inr proto,
                   context\<lparr>count_ctx := count_ctx context + 1\<rparr>,
                   self1\<lparr>last_action := output, count_gen := count_gen self1 + 1\<rparr>)))"

text \<open>The generator and the context as their constructors leave them.\<close>

definition new_generator :: OnnxCommandGenerator where
  "new_generator = \<lparr>last_action = replicate 12 0, count_gen = 1, init_pos = None, init_load = None\<rparr>"

definition new_context :: OnnxControllerContext where
  "new_context = \<lparr>event = False, latest_state = None, velocity_cmd = [0, 0, 0], count_ctx = 0\<rparr>"

text \<open>
  A session is a sequence of events on one generator and its context: the state thread
  delivers a state, the gamepad thread writes a velocity command, the command thread
  calls the generator, or \<open>create_proto_hold\<close> is called on it. \<open>run\<close> gives the result
  of every call in order, and the context and generator at the end.
\<close>

datatype session_event =
  StateUpdate RobotState | VelocityUpdate "real list" | Call | Hold

fun step ::
  "Setup \<Rightarrow> session_event \<Rightarrow> OnnxControllerContext \<times> OnnxCommandGenerator
     \<Rightarrow> (py_error + Command) option \<times> OnnxControllerContext \<times> OnnxCommandGenerator" where
  "step S (StateUpdate state) (context, self) = (None, StateHandler_call state context, self)"
| "step S (VelocityUpdate v) (context, self) = (None, context\<lparr>velocity_cmd := v\<rparr>, self)"
| "step S Call (context, self) =
     (case generator_call S context self of (r, context', self') \<Rightarrow> (Some r, context', self'))"
| "step S Hold (context, self) = (Some (create_proto_hold S context self), context, self)"

fun run ::
  "Setup \<Rightarrow> session_event list \<Rightarrow> OnnxControllerContext \<times> OnnxCommandGenerator
     \<Rightarrow> (session_event \<times> (py_error + Command)) list
        \<times> OnnxControllerContext \<times> OnnxCommandGenerator" where
  "run S [] s = ([], s)"
| "run S (e # es) s =
     (case step S e s of (r, s') \<Rightarrow>
        case run S es s' of (rs, s'') \<Rightarrow>
          ((case r of None \<Rightarrow> rs | Some x \<Rightarrow> (e, x) # rs), s''))"

text \<open>The commands that calls of \<open>__call__\<close> returned, in order.\<close>

fun call_commands :: "(session_event \<times> (py_error + Command)) list \<Rightarrow> Command list" where
  "call_commands [] = []"
| "call_commands ((Call, Inr c) # rs) = c # call_commands rs"
| "call_commands (r # rs) = call_commands rs"

text \<open>
  For the examples: a robot joint order (leg by leg), a complete configuration, the
  configuration that \<open>load_configuration\<close> returns for \<open>front_left_only\<close>, a policy that
  always answers with ones, and a state with every joint at its offset.
\<close>

definition leg_by_leg :: "string list" where
  "leg_by_leg =
     [''fl_hx'', ''fl_hy'', ''fl_kn'', ''fr_hx'', ''fr_hy'', ''fr_kn'',
      ''hl_hx'', ''hl_hy'', ''hl_kn'', ''hr_hx'', ''hr_hy'', ''hr_kn'']"

definition standing_config :: OrbitConfig where
  "standing_config =
     \<lparr>kp = map (\<lambda>k. (k, JNum 60)) ordered_joint_names_orbit,
      kd = map (\<lambda>k. (k, JNum 1.5)) ordered_joint_names_orbit,
      default_joints =
        [(''fl_hx'', JNum 0.1), (''fr_hx'', JNum (- 0.1)), (''hl_hx'', JNum 0.1),
         (''hr_hx'', JNum (- 0.1)), (''fl_hy'', JNum 0.9), (''fr_hy'', JNum 0.9),
         (''hl_hy'', JNum 1.1), (''hr_hy'', JNum 1.1), (''fl_kn'', JNum (- 1.5)),
         (''fr_kn'', JNum (- 1.5)), (''hl_kn'', JNum (- 1.5)), (''hr_kn'', JNum (- 1.5))],
      standing_height = JNum 0.5, action_scale = JNum 0.2\<rparr>"

definition partial_config :: OrbitConfig where
  "partial_config =
     \<lparr>kp = [(''fl_hx'', JNum 60), (''fr_hx'', JNull), (''hl_hx'', JNull),
            (''hr_hx'', JNull), (''fl_hy'', JNum 60), (''fr_hy'', JNull),
            (''hl_hy'', JNull), (''hr_hy'', JNull), (''fl_kn'', JNum 60),
            (''fr_kn'', JNull), (''hl_kn'', JNull), (''hr_kn'', JNull)],
      kd = [(''fl_hx'', JNum 1.5), (''fr_hx'', JNull), (''hl_hx'', JNull),
            (''hr_hx'', JNull), (''fl_hy'', JNum 1.5), (''fr_hy'', JNull),
            (''hl_hy'', JNull), (''hr_hy'', JNull), (''fl_kn'', JNum 1.5),
            (''fr_kn'', JNull), (''hl_kn'', JNull), (''hr_kn'', JNull)],
      default_joints =
           [(''fl_hx'', JNum 0.1), (''fr_hx'', JNull), (''hl_hx'', JNull),
            (''hr_hx'', JNull), (''fl_hy'', JNum 0.1), (''fr_hy'', JNull),
            (''hl_hy'', JNull), (''hr_hy'', JNull), (''fl_kn'', JNum 0.1),
            (''fr_kn'', JNull), (''hl_kn'', JNull), (''hr_kn'', JNull)],
      standing_height = JNum 0.5, action_scale = JNum 0.2\<rparr>"

definition example_setup :: Setup where
  "example_setup =
     \<lparr>config = standing_config, policy = (\<lambda>obs. Inr (replicate 12 1)),
      ordered_joint_names_bosdyn = leg_by_leg,
      DEFAULT_K_Q_P = replicate 12 50, DEFAULT_K_QD_P = replicate 12 2\<rparr>"

definition partial_setup :: Setup where
  "partial_setup = example_setup\<lparr>config := partial_config\<rparr>"

definition neutral_state :: RobotState where
  "neutral_state =
     \<lparr>linear_velocity = (0, 0, 0), angular_velocity = (0, 0, 0), rotation = (1, 0, 0, 0),
      position = [0.1, 0.9, - 1.5, - 0.1, 0.9, - 1.5, 0.1, 1.1, - 1.5, - 0.1, 1.1, - 1.5],
      velocity = replicate 12 0, load = replicate 12 0, acquisition_timestamp = 100\<rparr>"

section \<open>utils/event_divider.py\<close>

text \<open>
  What \<open>EventDivider.__call__\<close> does to the event is recorded as a trace: each
  \<open>self._event.wait(1)\<close> with its outcome, each \<open>self._event.clear()\<close>, each
  \<open>time.sleep(0.001)\<close>. Whether a wait is signalled within its one-second window is
  decided by the state thread; the model takes the outcome of the \<open>k\<close>-th wait of
  the call as \<open>signalled k\<close>.
\<close>

datatype divider_event = Wait bool | Clear | Sleep

function divider_loop ::
  "(nat \<Rightarrow> bool) \<Rightarrow> int \<Rightarrow> int \<Rightarrow> divider_event list \<Rightarrow> bool \<times> divider_event list" where
  "divider_loop signalled factor cnt tr =
     (if cnt < factor then
        (if \<not> signalled (nat cnt) then (False, tr @ [Wait False])
         else divider_loop signalled factor (cnt + 1) (tr @ [Wait True, Clear, Sleep]))
      else (True, tr))"
  by pat_completeness auto
termination
  by (relation "measure (\<lambda>(signalled, factor, cnt, tr). nat (factor - cnt))") auto

declare divider_loop.simps [simp del]

definition EventDivider_call :: "(nat \<Rightarrow> bool) \<Rightarrow> int \<Rightarrow> bool \<times> divider_event list" where
  "EventDivider_call signalled factor = divider_loop signalled factor 0 []"

text \<open>The trace of \<open>n\<close> successful rounds of the loop.\<close>

definition rounds :: "nat \<Rightarrow> divider_event list" where
  "rounds n = concat (replicate n [Wait True, Clear, Sleep])"

section \<open>The shaping curve\<close>

text \<open>
  C8. For an axis configuration with \<open>0 \<le> deadband < 1\<close> and
  \<open>0 \<le> min_forward_dir \<le> max_forward_dir\<close>, and a sample whose value \<open>x\<close> after the
  optional inversion is positive and outside the deadband, \<open>_apply_curve\<close> returns the
  linear remap of \<open>[deadband, 1]\<close> onto \<open>[min_forward_dir, max_forward_dir]\<close>, with slope
  \<open>(max_forward_dir - min_forward_dir) / (1 - deadband)\<close>, clamped to
  \<open>[min_forward_dir, max_forward_dir]\<close>: the deadband edge goes to \<open>min_forward_dir\<close>,
  full deflection to \<open>max_forward_dir\<close>. With deadband 0.2, bounds 0.25 and 1.0 and the
  raw input 0.6 (not inverted) the output is 0.625.
\<close>

theorem apply_curve_forward:
  assumes "0 \<le> deadband cfg" and "deadband cfg < 1"
    and "0 \<le> min_forward_dir cfg" and "min_forward_dir cfg \<le> max_forward_dir cfg"
    and "x = (if inverted cfg then - raw else raw)"
    and "0 < x" and "deadband cfg \<le> x"
  shows "apply_curve raw cfg =
           Inr (min (max_forward_dir cfg)
                 (max (min_forward_dir cfg)
                    (min_forward_dir cfg
                      + (x - deadband cfg)
                        * ((max_forward_dir cfg - min_forward_dir cfg) / (1 - deadband cfg)))))
         \<and> (\<exists>y. apply_curve raw cfg = Inr y
                \<and> min_forward_dir cfg \<le> y \<and> y \<le> max_forward_dir cfg
                \<and> (x = deadband cfg \<longrightarrow> y = min_forward_dir cfg)
                \<and> (x = 1 \<longrightarrow> y = max_forward_dir cfg))
         \<and> apply_curve 0.6
              \<lparr>index = i, inverted = False, deadband = 0.2, min_forward_dir = 0.25,
               max_forward_dir = 1, min_reverse_dir = mr, max_reverse_dir = xr\<rparr>
            = Inr 0.625"
proof -
  define d lo hi where dlh: "d = deadband cfg" "lo = min_forward_dir cfg"
    "hi = max_forward_dir cfg"
  define s where "s = (hi - lo) / (1 - d)"
  have d1: "1 - d \<noteq> 0" using assms(2) by (simp add: dlh)
  have lohi: "lo \<le> hi" using assms(4) by (simp add: dlh)
  have nodead: "\<not> \<bar>x\<bar> < d" using assms(6,7) by (simp add: dlh)
  have e: "s * (1 - d) = hi - lo" using d1 by (simp add: s_def)
  have lin: "s * x + (hi - s) = lo + (x - d) * s"
  proof -
    have "hi = lo + s * (1 - d)" using e by simp
    then have "s * x + (hi - s) = s * x + (lo + s * (1 - d) - s)" by simp
    also have "\<dots> = lo + (x - d) * s" by (simp add: algebra_simps)
    finally show ?thesis .
  qed
  have val: "apply_curve raw cfg = Inr (min hi (max lo (lo + (x - d) * s)))"
    using nodead assms(5,6) d1 lin
    unfolding apply_curve_def Let_def np_clip_def dlh [symmetric] s_def [symmetric]
    by (simp add: max.commute)
  have one: "lo + (1 - d) * s = hi" using e by (simp add: mult.commute)
  have inst: "apply_curve 0.6
              \<lparr>index = i, inverted = False, deadband = 0.2, min_forward_dir = 0.25,
               max_forward_dir = 1, min_reverse_dir = mr, max_reverse_dir = xr\<rparr>
            = Inr 0.625"
    by (simp add: apply_curve_def Let_def np_clip_def)
  have rng: "lo \<le> min hi (max lo (lo + (x - d) * s))"
            "min hi (max lo (lo + (x - d) * s)) \<le> hi"
    using lohi by simp_all
  have edge: "x = d \<longrightarrow> min hi (max lo (lo + (x - d) * s)) = lo"
    using lohi by simp
  have full: "x = 1 \<longrightarrow> min hi (max lo (lo + (x - d) * s)) = hi"
    using one lohi by simp
  show ?thesis using val rng edge full inst
    unfolding dlh s_def by simp
qed

theorem apply_curve_forward_witness:
  "apply_curve (-1) x_axis_config = Inr 1"
  using apply_curve_forward [of x_axis_config 1 "-1"]
  by (simp add: x_axis_config_def)

text \<open>
  C1. The reverse branch of \<open>_apply_curve\<close> adds the same \<open>shift\<close> as the forward branch
  instead of subtracting it. With the default forward/backward axis (deadband 0.2,
  reverse bounds 0.25 and 1.0, inverted) and the stick fully reversed, the value after
  inversion is \<open>-1\<close>; the symmetric mirror of the forward remap is \<open>-1\<close>, the code
  returns \<open>-0.875\<close>.
\<close>

theorem apply_curve_reverse_full_deflection:
  "apply_curve 1 x_axis_config = Inr (- 0.875)
   \<and> - (min_reverse_dir x_axis_config
        + (\<bar>- 1\<bar> - deadband x_axis_config) / (1 - deadband x_axis_config)
          * (max_reverse_dir x_axis_config - min_reverse_dir x_axis_config)) = (- 1 :: real)"
  by (simp add: apply_curve_def x_axis_config_def Let_def np_clip_def)

section \<open>Joint reordering\<close>

lemma collect_map:
  "(\<And>x. x \<in> set xs \<Longrightarrow> f x = Inr (g x)) \<Longrightarrow> collect f xs = Inr (map g xs)"
  by (induction xs) auto

lemma list_index_mem:
  "key \<in> set xs \<Longrightarrow>
   list_index xs key = Inr (int (first_pos xs key))
   \<and> first_pos xs key < length xs \<and> xs ! first_pos xs key = key"
  by (induction xs) auto

lemma first_pos_distinct:
  assumes "distinct xs" and "n < length xs"
  shows "first_pos xs (xs ! n) = n"
proof -
  have "xs ! n \<in> set xs" using assms(2) by simp
  then have "first_pos xs (xs ! n) < length xs" "xs ! first_pos xs (xs ! n) = xs ! n"
    using list_index_mem by fastforce+
  with assms show ?thesis by (simp add: nth_eq_iff_index_eq)
qed

lemma find_ordering_subset:
  "set ys \<subseteq> set xs \<Longrightarrow> find_ordering xs ys = Inr (map (\<lambda>k. int (first_pos xs k)) ys)"
  unfolding find_ordering_def
  by (rule collect_map) (use list_index_mem in fastforce)

lemma reorder_positions:
  "(\<And>k. k \<in> set ks \<Longrightarrow> p k < length xs) \<Longrightarrow>
   reorder xs (map (\<lambda>k. int (p k)) ks) = Inr (map (\<lambda>k. xs ! p k) ks)"
proof -
  assume r: "\<And>k. k \<in> set ks \<Longrightarrow> p k < length xs"
  have "collect (getitem xs) (map (\<lambda>k. int (p k)) ks)
          = Inr (map (\<lambda>i. xs ! nat i) (map (\<lambda>k. int (p k)) ks))"
    by (rule collect_map) (use r in \<open>auto simp: getitem_def\<close>)
  then show ?thesis by (simp add: reorder_def comp_def)
qed

text \<open>
  C2, as stated, fails when a value occurs twice: \<open>list.index\<close> always finds the first
  occurrence, so both orderings are \<open>[0, 0]\<close> and the second element of the list is lost.
\<close>

theorem reorder_round_trip_duplicates:
  "mset [''fl_hx'', ''fl_hx''] = mset [''fl_hx'', ''fl_hx'']
   \<and> length [1, 2 :: int] = length [''fl_hx'', ''fl_hx'']
   \<and> reorder_round_trip [1, 2 :: int] [''fl_hx'', ''fl_hx''] [''fl_hx'', ''fl_hx''] = Inr [1, 1]
   \<and> reorder_round_trip [1, 2 :: int] [''fl_hx'', ''fl_hx''] [''fl_hx'', ''fl_hx''] \<noteq> Inr [1, 2]"
  by (simp add: reorder_round_trip_def find_ordering_def reorder_def bind_r_def getitem_def)

text \<open>
  C2, amended. For two lists \<open>A\<close> and \<open>B\<close> without repeated values that are equal as
  multisets, and any list \<open>L\<close> with \<open>len(L) = len(A)\<close>, reordering \<open>L\<close> by
  \<open>find_ordering(A, B)\<close> and then by \<open>find_ordering(B, A)\<close> raises nothing and gives
  back \<open>L\<close>.
\<close>

theorem reorder_round_trip_distinct:
  assumes "distinct A" and "mset A = mset B" and "length L = length A"
  shows "reorder_round_trip L A B = Inr L"
proof -
  from assms(2) have sets: "set B = set A" by (metis set_mset_mset)
  from assms(2) have len: "length B = length A" by (metis size_mset)
  let ?M = "map (\<lambda>k. L ! first_pos A k) B"
  have ab: "find_ordering A B = Inr (map (\<lambda>k. int (first_pos A k)) B)"
    by (rule find_ordering_subset) (simp add: sets)
  have ba: "find_ordering B A = Inr (map (\<lambda>k. int (first_pos B k)) A)"
    by (rule find_ordering_subset) (simp add: sets)
  have m: "reorder L (map (\<lambda>k. int (first_pos A k)) B) = Inr ?M"
    by (rule reorder_positions) (use list_index_mem sets assms(3) in fastforce)
  have rt: "reorder ?M (map (\<lambda>k. int (first_pos B k)) A)
                = Inr (map (\<lambda>k. ?M ! first_pos B k) A)"
    by (rule reorder_positions) (use list_index_mem sets in fastforce)
  have "map (\<lambda>k. ?M ! first_pos B k) A = L"
  proof (rule nth_equalityI)
    show "length (map (\<lambda>k. ?M ! first_pos B k) A) = length L" using assms(3) by simp
  next
    fix i assume "i < length (map (\<lambda>k. ?M ! first_pos B k) A)"
    then have i: "i < length A" by simp
    then have mem: "A ! i \<in> set B" using sets by simp
    have p: "first_pos B (A ! i) < length B" "B ! first_pos B (A ! i) = A ! i"
      using list_index_mem [OF mem] by simp_all
    have "?M ! first_pos B (A ! i) = L ! first_pos A (B ! first_pos B (A ! i))"
      using p(1) by simp
    also have "\<dots> = L ! i" using p(2) first_pos_distinct [OF assms(1) i] by simp
    finally show "map (\<lambda>k. ?M ! first_pos B k) A ! i = L ! i" using i by simp
  qed
  with ab ba m rt show ?thesis by (simp add: reorder_round_trip_def bind_r_def)
qed

theorem reorder_round_trip_distinct_witness:
  "reorder_round_trip [1, 2, 3 :: int] [''fl_hx'', ''fl_hy'', ''fl_kn''] [''fl_kn'', ''fl_hx'', ''fl_hy'']
     = Inr [1, 2, 3]"
  using reorder_round_trip_distinct
    [of "[''fl_hx'', ''fl_hy'', ''fl_kn'']" "[''fl_kn'', ''fl_hx'', ''fl_hy'']" "[1, 2, 3 :: int]"]
  by simp

section \<open>The rate divider\<close>

lemma rounds_Suc: "[Wait True, Clear, Sleep] @ rounds n = rounds (Suc n)"
  by (simp add: rounds_def)

lemma divider_loop_all:
  "0 \<le> cnt \<Longrightarrow> (\<forall>k. nat cnt \<le> k \<and> k < nat factor \<longrightarrow> signalled k) \<Longrightarrow>
   divider_loop signalled factor cnt tr = (True, tr @ rounds (nat factor - nat cnt))"
proof (induction signalled factor cnt tr rule: divider_loop.induct)
  case (1 signalled factor cnt tr)
  show ?case
  proof (cases "cnt < factor")
    case False
    then have "nat factor - nat cnt = 0" by simp
    with False show ?thesis by (simp add: divider_loop.simps [of _ factor cnt] rounds_def)
  next
    case True
    with "1.prems" have ok: "signalled (nat cnt)" by simp
    have "divider_loop signalled factor (cnt + 1) (tr @ [Wait True, Clear, Sleep])
            = (True, (tr @ [Wait True, Clear, Sleep]) @ rounds (nat factor - nat (cnt + 1)))"
      using True ok "1.prems" by (intro "1.IH") auto
    moreover have "Suc (nat factor - nat (cnt + 1)) = nat factor - nat cnt"
      using True "1.prems"(1) by simp
    ultimately show ?thesis
      using True ok rounds_Suc [of "nat factor - nat (cnt + 1)"]
      by (simp add: divider_loop.simps [of _ factor cnt])
  qed
qed

lemma divider_loop_timeout:
  "0 \<le> cnt \<Longrightarrow> nat cnt \<le> k \<Longrightarrow> k < nat factor \<Longrightarrow> \<not> signalled k \<Longrightarrow>
   (\<forall>j. nat cnt \<le> j \<and> j < k \<longrightarrow> signalled j) \<Longrightarrow>
   divider_loop signalled factor cnt tr = (False, tr @ rounds (k - nat cnt) @ [Wait False])"
proof (induction signalled factor cnt tr rule: divider_loop.induct)
  case (1 signalled factor cnt tr)
  from "1.prems" have lt: "cnt < factor" by linarith
  show ?case
  proof (cases "k = nat cnt")
    case True
    with "1.prems" lt show ?thesis
      by (simp add: divider_loop.simps [of _ factor cnt] rounds_def)
  next
    case False
    with "1.prems" have gt: "nat cnt < k" by simp
    with "1.prems" have ok: "signalled (nat cnt)" by simp
    have "divider_loop signalled factor (cnt + 1) (tr @ [Wait True, Clear, Sleep])
            = (False, (tr @ [Wait True, Clear, Sleep]) @ rounds (k - nat (cnt + 1)) @ [Wait False])"
      using lt ok gt "1.prems" by (intro "1.IH") auto
    moreover have "Suc (k - nat (cnt + 1)) = k - nat cnt"
      using gt "1.prems"(1) by simp
    ultimately show ?thesis
      using lt ok rounds_Suc [of "k - nat (cnt + 1)"]
      by (simp add: divider_loop.simps [of _ factor cnt])
  qed
qed

text \<open>
  C5. For a factor of at least 1, \<open>EventDivider.__call__\<close> returns \<open>True\<close> exactly when
  the first \<open>factor\<close> waits are all signalled within their windows. It then has made
  exactly \<open>factor\<close> waits, each followed by a clear (and the 1 ms sleep). Otherwise it
  returns \<open>False\<close> at the first wait that times out, with no further wait or clear.
\<close>

theorem EventDivider_call_factor:
  assumes "1 \<le> factor"
  shows "(fst (EventDivider_call signalled factor) \<longleftrightarrow> (\<forall>k < nat factor. signalled k))
       \<and> (fst (EventDivider_call signalled factor) \<longrightarrow>
            snd (EventDivider_call signalled factor) = rounds (nat factor))
       \<and> (\<not> fst (EventDivider_call signalled factor) \<longrightarrow>
            (\<exists>k < nat factor. (\<forall>j < k. signalled j) \<and> \<not> signalled k
               \<and> snd (EventDivider_call signalled factor) = rounds k @ [Wait False]))"
proof (cases "\<forall>k < nat factor. signalled k")
  case True
  then have "EventDivider_call signalled factor = (True, rounds (nat factor))"
    using divider_loop_all [of 0 factor signalled "[]"] by (simp add: EventDivider_call_def)
  with True show ?thesis by simp
next
  case False
  define k where "k = (LEAST k. k < nat factor \<and> \<not> signalled k)"
  from False have ex: "\<exists>k. k < nat factor \<and> \<not> signalled k" by blast
  then have k: "k < nat factor" "\<not> signalled k"
    unfolding k_def by (metis (mono_tags, lifting) LeastI_ex)+
  have least: "\<forall>j < k. signalled j"
  proof (intro allI impI)
    fix j assume "j < k"
    then have "\<not> (j < nat factor \<and> \<not> signalled j)"
      unfolding k_def by (rule not_less_Least)
    with \<open>j < k\<close> k(1) show "signalled j" by simp
  qed
  have "EventDivider_call signalled factor = (False, rounds k @ [Wait False])"
    using divider_loop_timeout [of 0 k factor signalled "[]"] k least
    by (simp add: EventDivider_call_def)
  with False k least show ?thesis by auto
qed

theorem EventDivider_call_factor_witness:
  "EventDivider_call (\<lambda>k. True) 6 = (True, rounds 6)
   \<and> \<not> fst (EventDivider_call (\<lambda>k. k \<noteq> 3) 6)"
proof -
  have six: "nat 6 = 6" by simp
  have a: "fst (EventDivider_call (\<lambda>k. True) 6)"
    and b: "snd (EventDivider_call (\<lambda>k. True) 6) = rounds 6"
    using EventDivider_call_factor [of 6 "\<lambda>k. True"] by simp_all
  have "\<not> (\<forall>k < nat 6. k \<noteq> 3)" by simp
  then have c: "\<not> fst (EventDivider_call (\<lambda>k. k \<noteq> 3) 6)"
    using EventDivider_call_factor [of 6 "\<lambda>k. k \<noteq> 3"] by simp
  from a b c show ?thesis by (simp add: prod_eq_iff)
qed

text \<open>
  C10. For a factor of zero or less the loop body never runs: \<open>EventDivider.__call__\<close>
  returns \<open>True\<close> at once, with no wait on the event and no clear, whatever the state
  thread signals.
\<close>

theorem EventDivider_call_nonpositive:
  "factor \<le> 0 \<Longrightarrow> EventDivider_call signalled factor = (True, [])"
  by (simp add: EventDivider_call_def divider_loop.simps [of _ factor 0])

theorem EventDivider_call_nonpositive_witness:
  "EventDivider_call (\<lambda>k. False) 0 = (True, [])
   \<and> EventDivider_call (\<lambda>k. False) (- 2) = (True, [])"
  using EventDivider_call_nonpositive [of 0 "\<lambda>k. False"]
    EventDivider_call_nonpositive [of "- 2" "\<lambda>k. False"]
  by simp

section \<open>Loading the training configuration\<close>

lemma isl_bind_r: "isl m \<Longrightarrow> isl (bind_r m f)"
  by (cases m) (simp_all add: bind_r_def)

lemma bind_r_Inr: "bind_r m f = Inr y \<Longrightarrow> \<exists>x. m = Inr x \<and> f x = Inr y"
  by (cases m) (simp_all add: bind_r_def)

lemma for_each_isl:
  "x \<in> set xs \<Longrightarrow> (\<And>s. isl (body x s)) \<Longrightarrow> isl (for_each body xs s)"
proof (induction xs arbitrary: s)
  case Nil
  then show ?case by simp
next
  case (Cons a xs)
  show ?case
  proof (cases "body a s")
    case (Inl e)
    then show ?thesis by simp
  next
    case (Inr s')
    have "x \<noteq> a" using Inr Cons.prems(2) [of s] by auto
    with Cons.prems have "x \<in> set xs" by simp
    with Cons.IH Cons.prems(2) Inr show ?thesis by simp
  qed
qed

lemma isl_bind_r_iff: "isl (bind_r m f) \<longleftrightarrow> isl m \<or> (\<exists>x. m = Inr x \<and> isl (f x))"
  by (cases m) (simp_all add: bind_r_def)

lemma set_actuator_gains_isl:
  assumes "key \<in> set [''joint_names_expr'', ''stiffness'', ''damping'']"
    and "isl (subscript_path actuators [grp, key])"
  shows "isl (set_actuator_gains engine actuators grp gains)"
proof -
  consider "key = ''joint_names_expr''" | "key = ''stiffness''" | "key = ''damping''"
    using assms(1) by auto
  then show ?thesis
  proof cases
    case 1
    with assms(2) have "isl (actuator_regex engine actuators grp)"
      unfolding actuator_regex_def by (intro isl_bind_r) simp
    then show ?thesis unfolding set_actuator_gains_def by (rule isl_bind_r)
  next
    case 2
    with assms(2) have "isl (subscript_path actuators [grp, ''stiffness''])" by simp
    then show ?thesis
      unfolding set_actuator_gains_def isl_bind_r_iff
      by (cases "actuator_regex engine actuators grp") simp_all
  next
    case 3
    with assms(2) have "isl (subscript_path actuators [grp, ''damping''])" by simp
    then show ?thesis
      unfolding set_actuator_gains_def isl_bind_r_iff
      by (cases "actuator_regex engine actuators grp";
          cases "subscript_path actuators [grp, ''stiffness'']") simp_all
  qed
qed

lemma load_configuration_path_isl:
  "path \<in> set required_paths \<Longrightarrow> isl (subscript_path env_config path) \<Longrightarrow>
   isl (load_configuration engine env_config)"
  unfolding load_configuration_def Let_def required_paths_def bind_r_def
  by (auto split: sum.splits)

lemma set_matching_other:
  "\<not> regex joint \<Longrightarrow> map_of (set_matching data regex v) joint = map_of data joint"
  unfolding set_matching_def by (induction data) auto

lemma for_each_gains_unmatched:
  assumes "for_each (set_actuator_gains engine actuators) grps (a, b) = Inr (a', b')"
    and "\<And>grp regex. grp \<in> set grps \<Longrightarrow> actuator_regex engine actuators grp = Inr regex
           \<Longrightarrow> \<not> regex joint"
  shows "map_of a' joint = map_of a joint \<and> map_of b' joint = map_of b joint"
  using assms
proof (induction grps arbitrary: a b)
  case Nil
  then show ?case by simp
next
  case (Cons g gs)
  from Cons.prems(1) obtain a1 b1 where
    step: "set_actuator_gains engine actuators g (a, b) = Inr (a1, b1)"
    and rest: "for_each (set_actuator_gains engine actuators) gs (a1, b1) = Inr (a', b')"
    by (auto split: sum.splits)
  from step obtain rx stiffness damping where
    r: "actuator_regex engine actuators g = Inr rx"
    and a1: "a1 = set_matching a rx stiffness" and b1: "b1 = set_matching b rx damping"
    unfolding set_actuator_gains_def by (auto dest!: bind_r_Inr)
  have "\<not> rx joint" using Cons.prems(2) [of g rx] r by simp
  then have "map_of a1 joint = map_of a joint" "map_of b1 joint = map_of b joint"
    using a1 b1 by (simp_all add: set_matching_other)
  moreover have "map_of a' joint = map_of a1 joint \<and> map_of b' joint = map_of b1 joint"
  proof (rule Cons.IH [OF rest])
    fix grp regex
    assume "grp \<in> set gs" "actuator_regex engine actuators grp = Inr regex"
    then show "\<not> regex joint" using Cons.prems(2) [of grp regex] by simp
  qed
  ultimately show ?case by simp
qed

lemma initial_dict:
  "joint \<in> set ordered_joint_names_orbit \<Longrightarrow>
   map_of (dict_from_lists ordered_joint_names_orbit (replicate 12 JNull)) joint = Some JNull"
  by (auto simp: dict_from_lists_def ordered_joint_names_orbit_def eval_nat_numeral)

lemmas load_eval = load_configuration_def bind_r_def literal_engine_def
      dict_from_lists_def ordered_joint_names_orbit_def set_actuator_gains_def actuator_regex_def
      set_joint_offsets_def set_matching_def getitem_def

text \<open>
  C3, as stated, fails: a joint name that no actuator regex matches raises nothing.
  With the only actuator group matching \<open>fl_\<close>, \<open>load_configuration\<close> returns an
  \<open>OrbitConfig\<close> whose \<open>kp\<close>, \<open>kd\<close> and \<open>default_joints\<close> hold \<open>None\<close> for the nine
  joints of the other legs.
\<close>

theorem load_configuration_unmatched_joint:
  "''fr_hx'' \<in> set ordered_joint_names_orbit
   \<and> \<not> matched_by_actuator literal_engine front_left_only ''fr_hx''
   \<and> load_configuration literal_engine front_left_only =
       Inr \<lparr>kp = [(''fl_hx'', JNum 60), (''fr_hx'', JNull), (''hl_hx'', JNull),
            (''hr_hx'', JNull), (''fl_hy'', JNum 60), (''fr_hy'', JNull),
            (''hl_hy'', JNull), (''hr_hy'', JNull), (''fl_kn'', JNum 60),
            (''fr_kn'', JNull), (''hl_kn'', JNull), (''hr_kn'', JNull)],
        kd = [(''fl_hx'', JNum 1.5), (''fr_hx'', JNull),
              (''hl_hx'', JNull), (''hr_hx'', JNull),
              (''fl_hy'', JNum 1.5), (''fr_hy'', JNull),
              (''hl_hy'', JNull), (''hr_hy'', JNull),
              (''fl_kn'', JNum 1.5), (''fr_kn'', JNull),
              (''hl_kn'', JNull), (''hr_kn'', JNull)],
        default_joints =
          [(''fl_hx'', JNum 0.1), (''fr_hx'', JNull),
           (''hl_hx'', JNull), (''hr_hx'', JNull),
           (''fl_hy'', JNum 0.1), (''fr_hy'', JNull),
           (''hl_hy'', JNull), (''hr_hy'', JNull),
           (''fl_kn'', JNum 0.1), (''fr_kn'', JNull),
           (''hl_kn'', JNull), (''hr_kn'', JNull)],
        standing_height = JNum 0.5, action_scale = JNum 0.2\<rparr>"
  by (simp add: load_eval front_left_only_def matched_by_actuator_def eval_nat_numeral)

text \<open>
  C3, amended. A training configuration in which a required key is missing makes
  \<open>load_configuration\<close> raise. A joint name of the orbit ordering that no actuator regex
  matches does not: whenever \<open>load_configuration\<close> returns, \<open>kp\<close> and \<open>kd\<close> hold the
  \<open>None\<close> placeholder for such a joint.
\<close>

theorem load_configuration_malformed:
  "(missing_required_key env_config \<longrightarrow> isl (load_configuration engine env_config))
   \<and> (\<forall>cfg joint.
         load_configuration engine env_config = Inr cfg
         \<and> joint \<in> set ordered_joint_names_orbit
         \<and> \<not> matched_by_actuator engine env_config joint \<longrightarrow>
         map_of (kp cfg) joint = Some JNull \<and> map_of (kd cfg) joint = Some JNull)"
proof -
  have missing: "isl (load_configuration engine env_config)" if m: "missing_required_key env_config"
  proof (cases "\<exists>path \<in> set required_paths. isl (subscript_path env_config path)")
    case True
    then show ?thesis using load_configuration_path_isl by blast
  next
    case False
    with m obtain actuators where
      a: "subscript_path env_config [''scene'', ''robot'', ''actuators''] = Inr actuators"
      and m1: "(case keys_of actuators of
              Inl e \<Rightarrow> False
            | Inr grps \<Rightarrow>
                (\<exists>grp \<in> set grps. \<exists>key \<in> set [''joint_names_expr'', ''stiffness'', ''damping''].
                    isl (subscript_path actuators [grp, key])))"
      unfolding missing_required_key_def
      by (cases "subscript_path env_config [''scene'', ''robot'', ''actuators'']")
         (simp_all del: subscript_path.simps)
    from m1 obtain grps where g: "keys_of actuators = Inr grps"
      and m2: "\<exists>grp \<in> set grps. \<exists>key \<in> set [''joint_names_expr'', ''stiffness'', ''damping''].
                    isl (subscript_path actuators [grp, key])"
      by (cases "keys_of actuators") (simp_all del: subscript_path.simps)
    from m2 obtain grp key where k: "grp \<in> set grps"
      "key \<in> set [''joint_names_expr'', ''stiffness'', ''damping'']"
      "isl (subscript_path actuators [grp, key])"
      by blast
    have "isl (for_each (set_actuator_gains engine actuators) grps s)" for s
      using k(1) set_actuator_gains_isl [OF k(2,3)] by (rule for_each_isl)
    then show ?thesis
      using a g unfolding load_configuration_def Let_def
      by (simp add: isl_bind_r_iff del: subscript_path.simps)
  qed
  have placeholder: "map_of (kp cfg) joint = Some JNull \<and> map_of (kd cfg) joint = Some JNull"
    if h: "load_configuration engine env_config = Inr cfg
         \<and> joint \<in> set ordered_joint_names_orbit
         \<and> \<not> matched_by_actuator engine env_config joint" for cfg joint
  proof -
  let ?init = "dict_from_lists ordered_joint_names_orbit (replicate 12 JNull)"
  from h obtain actuators grps gains where
    a: "subscript_path env_config [''scene'', ''robot'', ''actuators''] = Inr actuators"
    and g: "keys_of actuators = Inr grps"
    and f: "for_each (set_actuator_gains engine actuators) grps (?init, ?init) = Inr gains"
    and c: "kp cfg = fst gains" "kd cfg = snd gains"
    unfolding load_configuration_def Let_def
    by (auto dest!: bind_r_Inr)
  have un: "\<not> regex joint"
    if "grp \<in> set grps" "actuator_regex engine actuators grp = Inr regex" for grp regex
  proof
    assume "regex joint"
    with that a g have "matched_by_actuator engine env_config joint"
      unfolding matched_by_actuator_def
      by (auto simp del: subscript_path.simps intro!: bexI [of _ grp])
    with h show False by simp
  qed
  from f have fg: "for_each (set_actuator_gains engine actuators) grps (?init, ?init)
                 = Inr (fst gains, snd gains)" by simp
  have "map_of (fst gains) joint = map_of ?init joint
        \<and> map_of (snd gains) joint = map_of ?init joint"
  proof (rule for_each_gains_unmatched [OF fg])
    fix grp regex
    assume "grp \<in> set grps" "actuator_regex engine actuators grp = Inr regex"
    then show "\<not> regex joint" by (rule un)
  qed
  with c initial_dict [of joint] h show ?thesis by simp
  qed
  from missing placeholder show ?thesis by blast
qed

theorem load_configuration_malformed_witness:
  "missing_required_key front_left_no_actions
   \<and> isl (load_configuration literal_engine front_left_no_actions)
   \<and> ''fr_hx'' \<in> set ordered_joint_names_orbit
   \<and> \<not> matched_by_actuator literal_engine front_left_only ''fr_hx''
   \<and> (\<exists>cfg. load_configuration literal_engine front_left_only = Inr cfg
         \<and> map_of (kp cfg) ''fr_hx'' = Some JNull \<and> map_of (kd cfg) ''fr_hx'' = Some JNull)"
proof -
  have m: "missing_required_key front_left_no_actions"
    by (simp add: missing_required_key_def required_paths_def front_left_no_actions_def)
  have j: "''fr_hx'' \<in> set ordered_joint_names_orbit"
    by (simp add: ordered_joint_names_orbit_def)
  have u: "\<not> matched_by_actuator literal_engine front_left_only ''fr_hx''"
    by (simp add: matched_by_actuator_def front_left_only_def actuator_regex_def bind_r_def
        literal_engine_def getitem_def)
  have "\<not> isl (load_configuration literal_engine front_left_only)"
    by (simp add: load_eval front_left_only_def eval_nat_numeral)
  then obtain cfg where c: "load_configuration literal_engine front_left_only = Inr cfg"
    by (cases "load_configuration literal_engine front_left_only") simp_all
  from load_configuration_malformed [of front_left_no_actions literal_engine] m
  have "isl (load_configuration literal_engine front_left_no_actions)" by blast
  moreover from load_configuration_malformed [of front_left_only literal_engine] c j u
  have "map_of (kp cfg) ''fr_hx'' = Some JNull \<and> map_of (kd cfg) ''fr_hx'' = Some JNull"
    by blast
  ultimately show ?thesis using m j u c by blast
qed

section \<open>The observation vector\<close>

lemmas example_defs = leg_by_leg_def standing_config_def partial_config_def example_setup_def
  partial_setup_def neutral_state_def new_generator_def new_context_def
  ordered_joint_names_orbit_def

lemmas generator_defs = generator_call_def compute_command_def collect_inputs_def
  get_base_linear_velocity_def get_base_angular_velocity_def get_projected_gravity_def
  to_base_frame_def inv_quaternion_def rotate_def cross_def
  get_joint_positions_def get_joint_velocity_def post_process_def create_proto_def
  create_proto_hold_def StateHandler_call_def find_ordering_def reorder_def getitem_def
  dict_to_list_def bind_r_def

lemma to_base_frame_identity:
  "rotation state = (1, 0, 0, 0) \<Longrightarrow> to_base_frame state (a, b, c) = Inr [a, b, c]"
  by (simp add: to_base_frame_def inv_quaternion_def rotate_def cross_def)

lemma collect_zip_map:
  "(\<And>k. k \<in> set ks \<Longrightarrow> h (f k, g k) = Inr (r k)) \<Longrightarrow>
   collect h (zip (map f ks) (map g ks)) = Inr (map r ks)"
  by (induction ks) auto

lemma get_joint_positions_neutral:
  assumes sub: "set ordered_joint_names_orbit \<subseteq> set names"
    and len: "length (position state) = length names"
    and off: "\<forall>i < length names.
        map_of (default_joints cfg) (names ! i) = Some (JNum (position state ! i))"
  shows "get_joint_positions names state cfg = Inr (replicate 12 0)"
proof -
  let ?p = "\<lambda>k. first_pos names k"
  have fo: "find_ordering names ordered_joint_names_orbit
              = Inr (map (\<lambda>k. int (?p k)) ordered_joint_names_orbit)"
    using sub by (rule find_ordering_subset)
  have ro: "reorder (position state) (map (\<lambda>k. int (?p k)) ordered_joint_names_orbit)
              = Inr (map (\<lambda>k. position state ! ?p k) ordered_joint_names_orbit)"
    by (rule reorder_positions) (use sub len list_index_mem in fastforce)
  have co: "collect (\<lambda>(p, d). bind_r (num_of d) (\<lambda>r. Inr (p - r)))
              (zip (map (\<lambda>k. position state ! ?p k) ordered_joint_names_orbit)
                   (dict_to_list (default_joints cfg) ordered_joint_names_orbit))
            = Inr (map (\<lambda>k. 0) ordered_joint_names_orbit)"
    unfolding dict_to_list_def
  proof (rule collect_zip_map)
    fix k assume "k \<in> set ordered_joint_names_orbit"
    with sub have "k \<in> set names" by blast
    from list_index_mem [OF this] have "?p k < length names" "names ! ?p k = k" by simp_all
    with off have "map_of (default_joints cfg) k = Some (JNum (position state ! ?p k))"
      by metis
    then show "(case (position state ! ?p k,
                 case map_of (default_joints cfg) k of None \<Rightarrow> JNull | Some v \<Rightarrow> v) of
            (p, d) \<Rightarrow> bind_r (num_of d) (\<lambda>r. Inr (p - r))) = Inr 0"
      by (simp add: bind_r_def)
  qed
  have "map (\<lambda>k. 0::real) ordered_joint_names_orbit = replicate 12 0"
    by (simp add: ordered_joint_names_orbit_def eval_nat_numeral)
  with fo ro co show ?thesis by (simp add: get_joint_positions_def bind_r_def)
qed

lemma get_joint_velocity_zero:
  assumes sub: "set ordered_joint_names_orbit \<subseteq> set names"
    and vel: "velocity state = replicate (length names) 0"
  shows "get_joint_velocity names state = Inr (replicate 12 0)"
proof -
  let ?p = "\<lambda>k. first_pos names k"
  have fo: "find_ordering names ordered_joint_names_orbit
              = Inr (map (\<lambda>k. int (?p k)) ordered_joint_names_orbit)"
    using sub by (rule find_ordering_subset)
  have lt: "?p k < length names" if "k \<in> set ordered_joint_names_orbit" for k
    using that sub list_index_mem [of k names] by blast
  have ro: "reorder (velocity state) (map (\<lambda>k. int (?p k)) ordered_joint_names_orbit)
              = Inr (map (\<lambda>k. velocity state ! ?p k) ordered_joint_names_orbit)"
    by (rule reorder_positions) (simp add: vel lt)
  have "map (\<lambda>k. velocity state ! ?p k) ordered_joint_names_orbit
          = map (\<lambda>k. 0) ordered_joint_names_orbit"
    by (rule map_cong) (simp_all add: vel lt)
  also have "\<dots> = replicate 12 0" by (simp add: ordered_joint_names_orbit_def eval_nat_numeral)
  finally show ?thesis using fo ro by (simp add: get_joint_velocity_def bind_r_def)
qed

text \<open>
  C7. On the first policy invocation (\<open>_last_action\<close> still all zero), with zero linear
  and angular velocity, the identity orientation, every joint position equal to the
  neutral offset of its joint, zero joint velocities and the velocity command
  \<open>[0, 0, 0]\<close>, the observation has 48 entries, all zero except the projected gravity at
  indices 6 to 8, which is \<open>[0, 0, -1]\<close>. The robot's joint order is any list that
  contains the twelve orbit joint names.
\<close>

theorem collect_inputs_neutral:
  assumes "linear_velocity state = (0, 0, 0)" and "angular_velocity state = (0, 0, 0)"
    and "rotation state = (1, 0, 0, 0)"
    and "set ordered_joint_names_orbit \<subseteq> set (ordered_joint_names_bosdyn S)"
    and "length (position state) = length (ordered_joint_names_bosdyn S)"
    and "\<forall>i < length (ordered_joint_names_bosdyn S).
           map_of (default_joints (config S)) (ordered_joint_names_bosdyn S ! i)
             = Some (JNum (position state ! i))"
    and "velocity state = replicate (length (ordered_joint_names_bosdyn S)) 0"
    and "velocity_cmd context = [0, 0, 0]"
    and "last_action self = last_action new_generator"
  shows "collect_inputs S context self state
           = Inr ([0, 0, 0, 0, 0, 0, 0, 0, - 1] @ replicate 39 0)
         \<and> length ([0, 0, 0, 0, 0, 0, 0, 0, - 1 :: real] @ replicate 39 0) = 48"
proof -
  have "collect_inputs S context self state
          = Inr ([0, 0, 0] @ [0, 0, 0] @ [0, 0, - 1] @ [0, 0, 0]
                 @ replicate 12 0 @ replicate 12 0 @ replicate 12 0)"
    unfolding collect_inputs_def get_base_linear_velocity_def get_base_angular_velocity_def
      get_projected_gravity_def
    using assms(1,2,8,9) to_base_frame_identity [OF assms(3)]
      get_joint_positions_neutral [OF assms(4,5,6)] get_joint_velocity_zero [OF assms(4,7)]
    by (simp add: bind_r_def new_generator_def)
  moreover have "[0, 0, 0] @ [0, 0, 0] @ [0, 0, - 1] @ [0, 0, 0]
                 @ replicate 12 0 @ replicate 12 0 @ replicate 12 (0::real)
                = [0, 0, 0, 0, 0, 0, 0, 0, - 1] @ replicate 39 0"
    by (simp add: eval_nat_numeral)
  ultimately show ?thesis by simp
qed

theorem collect_inputs_neutral_witness:
  "collect_inputs example_setup new_context new_generator neutral_state
     = Inr ([0, 0, 0, 0, 0, 0, 0, 0, - 1] @ replicate 39 0)"
proof -
  have h1: "linear_velocity neutral_state = (0, 0, 0)"
    and h2: "angular_velocity neutral_state = (0, 0, 0)"
    and h3: "rotation neutral_state = (1, 0, 0, 0)"
    by (simp_all add: neutral_state_def)
  have h4: "set ordered_joint_names_orbit \<subseteq> set (ordered_joint_names_bosdyn example_setup)"
    by (simp add: example_defs)
  have h5: "length (position neutral_state) = length (ordered_joint_names_bosdyn example_setup)"
    by (simp add: example_defs)
  have h6: "\<forall>i < length (ordered_joint_names_bosdyn example_setup).
           map_of (default_joints (config example_setup))
             (ordered_joint_names_bosdyn example_setup ! i)
             = Some (JNum (position neutral_state ! i))"
    by (simp add: example_defs All_less_Suc eval_nat_numeral)
  have h7: "velocity neutral_state
              = replicate (length (ordered_joint_names_bosdyn example_setup)) 0"
    by (simp add: neutral_state_def example_setup_def leg_by_leg_def eval_nat_numeral)
  have h8: "velocity_cmd new_context = [0, 0, 0]" by (simp add: new_context_def)
  have h9: "last_action new_generator = last_action new_generator" by simp
  from collect_inputs_neutral [OF h1 h2 h3 h4 h5 h6 h7 h8 h9] show ?thesis by (rule conjunct1)
qed

section \<open>Command sequencing\<close>

lemma create_proto_fields:
  "create_proto S self state pos_command = Inr c \<Longrightarrow>
   user_command_key c = count_gen self \<and> (cmd_gains c \<noteq> None \<longleftrightarrow> count_gen self = 1)"
  unfolding create_proto_def Let_def
  by (auto dest!: bind_r_Inr split: if_splits)

lemma create_proto_hold_fields:
  "create_proto_hold S ctx self = Inr c \<Longrightarrow>
   user_command_key c = count_gen self \<and> (cmd_gains c \<noteq> None \<longleftrightarrow> count_gen self = 1)"
  unfolding create_proto_hold_def
  by (auto split: option.splits if_splits)

lemma compute_command_fields:
  "compute_command S ctx self state = Inr (out, c) \<Longrightarrow>
   user_command_key c = count_gen self \<and> (cmd_gains c \<noteq> None \<longleftrightarrow> count_gen self = 1)"
  unfolding compute_command_def
  by (auto dest!: bind_r_Inr dest: create_proto_fields)

lemma generator_call_returns:
  assumes "generator_call S ctx self = (Inr c, ctx', self')"
  shows "user_command_key c = count_gen self"
    and "cmd_gains c \<noteq> None \<longleftrightarrow> count_gen self = 1"
    and "count_gen self' = count_gen self + 1"
    and "count_ctx ctx' = count_ctx ctx + 1"
  using assms unfolding generator_call_def Let_def
  by (auto split: option.splits sum.splits if_splits dest: compute_command_fields)

lemma generator_call_raises:
  assumes "generator_call S ctx self = (Inl e, ctx', self')"
  shows "count_gen self' = count_gen self" and "count_ctx ctx' = count_ctx ctx"
  using assms unfolding generator_call_def Let_def
  by (auto split: option.splits sum.splits if_splits)

lemma call_commands_Cons:
  "call_commands ((e, x) # rs) =
     (if e = Call \<and> \<not> isl x then projr x # call_commands rs else call_commands rs)"
  by (cases e; cases x) simp_all

text \<open>What one event does to the counters, and what the command it produces carries.\<close>

lemma step_effect:
  assumes "step S e (ctx, self) = (r, ctx', self')"
  shows "(\<exists>c. e = Call \<and> r = Some (Inr c)
            \<and> count_gen self' = count_gen self + 1 \<and> count_ctx ctx' = count_ctx ctx + 1)
       \<or> ((\<forall>c. \<not> (e = Call \<and> r = Some (Inr c)))
            \<and> count_gen self' = count_gen self \<and> count_ctx ctx' = count_ctx ctx)"
    and "r = Some (Inr c) \<Longrightarrow>
           (e = Call \<or> e = Hold) \<and> user_command_key c = count_gen self
           \<and> (cmd_gains c \<noteq> None \<longleftrightarrow> count_gen self = 1)"
proof -
  show "(\<exists>c. e = Call \<and> r = Some (Inr c)
            \<and> count_gen self' = count_gen self + 1 \<and> count_ctx ctx' = count_ctx ctx + 1)
       \<or> ((\<forall>c. \<not> (e = Call \<and> r = Some (Inr c)))
            \<and> count_gen self' = count_gen self \<and> count_ctx ctx' = count_ctx ctx)"
  proof (cases e)
    case Call
    obtain x c1 g1 where gc: "generator_call S ctx self = (x, c1, g1)"
      by (metis prod_cases3)
    with Call assms have r: "r = Some x" "ctx' = c1" "self' = g1" by simp_all
    show ?thesis
    proof (cases x)
      case (Inl err)
      with gc r Call generator_call_raises [of S ctx self err c1 g1] show ?thesis by simp
    next
      case (Inr cmd)
      with gc r Call generator_call_returns [of S ctx self cmd c1 g1] show ?thesis
        by simp
    qed
  qed (use assms in \<open>auto simp: StateHandler_call_def\<close>)
  show "(e = Call \<or> e = Hold) \<and> user_command_key c = count_gen self
           \<and> (cmd_gains c \<noteq> None \<longleftrightarrow> count_gen self = 1)" if "r = Some (Inr c)"
  proof (cases e)
    case Call
    with assms that obtain c1 g1 where "generator_call S ctx self = (Inr c, c1, g1)"
      by (auto split: prod.splits)
    from generator_call_returns(1,2) [OF this] Call show ?thesis by simp
  next
    case Hold
    with assms that have "create_proto_hold S ctx self = Inr c" by auto
    from create_proto_hold_fields [OF this] Hold show ?thesis by simp
  qed (use assms that in auto)
qed

lemma run_Cons:
  assumes "run S (e # es) (ctx, self) = (rs, ctx', self')"
  shows "\<exists>r c1 g1 rs1. step S e (ctx, self) = (r, c1, g1)
           \<and> run S es (c1, g1) = (rs1, ctx', self')
           \<and> rs = (case r of None \<Rightarrow> rs1 | Some x \<Rightarrow> (e, x) # rs1)"
proof -
  obtain r c1 g1 where st: "step S e (ctx, self) = (r, c1, g1)" by (metis prod_cases3)
  obtain rs1 c2 g2 where rn: "run S es (c1, g1) = (rs1, c2, g2)" by (metis prod_cases3)
  from assms st rn show ?thesis by simp
qed

lemma run_counters:
  "run S es (ctx, self) = (rs, ctx', self') \<Longrightarrow>
   count_gen self' = count_gen self + int (length (call_commands rs))
   \<and> count_ctx ctx' = count_ctx ctx + int (length (call_commands rs))
   \<and> map user_command_key (call_commands rs)
       = map (\<lambda>i. count_gen self + int i) [0..<length (call_commands rs)]"
proof (induction es arbitrary: ctx self rs)
  case Nil
  then show ?case by simp
next
  case (Cons e es)
  from run_Cons [OF Cons.prems] obtain r c1 g1 rs1 where
    st: "step S e (ctx, self) = (r, c1, g1)"
    and rn: "run S es (c1, g1) = (rs1, ctx', self')"
    and rs: "rs = (case r of None \<Rightarrow> rs1 | Some x \<Rightarrow> (e, x) # rs1)"
    by blast
  note ih = Cons.IH [OF rn]
  from step_effect(1) [OF st] show ?case
  proof (elim disjE exE conjE)
    fix c assume h: "e = Call" "r = Some (Inr c)" "count_gen g1 = count_gen self + 1"
      "count_ctx c1 = count_ctx ctx + 1"
    from step_effect(2) [OF st h(2)] have k: "user_command_key c = count_gen self" by simp
    from h rs have cc: "call_commands rs = c # call_commands rs1" by simp
    show ?thesis using ih h(3,4) k unfolding cc
      by (simp add: map_upt_Suc del: upt_Suc)
  next
    assume h: "\<forall>c. \<not> (e = Call \<and> r = Some (Inr c))" "count_gen g1 = count_gen self"
      "count_ctx c1 = count_ctx ctx"
    have cc: "call_commands rs = call_commands rs1"
    proof (cases r)
      case None
      with rs show ?thesis by simp
    next
      case (Some x)
      with h(1) have "\<not> (e = Call \<and> \<not> isl x)" by (cases x) auto
      with Some rs show ?thesis by (simp add: call_commands_Cons)
    qed
    show ?thesis using ih h(2,3) unfolding cc by simp
  qed
qed

lemma run_gains:
  "run S es (ctx, self) = (rs, ctx', self') \<Longrightarrow> i < length rs \<Longrightarrow>
   rs ! i = (ev, Inr c) \<Longrightarrow>
   (cmd_gains c \<noteq> None \<longleftrightarrow> count_gen self + int (length (call_commands (take i rs))) = 1)"
proof (induction es arbitrary: ctx self rs i)
  case Nil
  then show ?case by simp
next
  case (Cons e es)
  from run_Cons [OF Cons.prems(1)] obtain r c1 g1 rs1 where
    st: "step S e (ctx, self) = (r, c1, g1)"
    and rn: "run S es (c1, g1) = (rs1, ctx', self')"
    and rs: "rs = (case r of None \<Rightarrow> rs1 | Some x \<Rightarrow> (e, x) # rs1)"
    by blast
  show ?case
  proof (cases r)
    case None
    with step_effect(1) [OF st] have "count_gen g1 = count_gen self" by auto
    with None rs Cons.IH [OF rn, of i] Cons.prems(2,3) show ?thesis by simp
  next
    case (Some x)
    with rs have rs': "rs = (e, x) # rs1" by simp
    show ?thesis
    proof (cases i)
      case 0
      with rs' Cons.prems(3) Some have "r = Some (Inr c)" by simp
      from step_effect(2) [OF st this] 0 show ?thesis by simp
    next
      case (Suc j)
      with rs' Cons.prems(2,3) have j: "j < length rs1" "rs1 ! j = (ev, Inr c)" by simp_all
      note ih = Cons.IH [OF rn j]
      have "count_gen g1 + int (length (call_commands (take j rs1)))
              = count_gen self + int (length (call_commands (take i rs)))"
        using step_effect(1) [OF st] Some
        by (cases x) (auto simp: rs' Suc call_commands_Cons)
      with ih show ?thesis by simp
    qed
  qed
qed

text \<open>
  C6. Every call of \<open>__call__\<close> that returns a command stamps it with the generator's
  counter and then increments that counter and the context's command count by exactly
  one. In any session on a new generator and context, whatever states and velocity
  commands arrive between the calls and whenever they arrive, the commands returned by
  \<open>__call__\<close> carry the keys 1, 2, 3, ... in order (strictly increasing, so none is
  reused), and the context's count is the number of commands returned so far.
\<close>

theorem command_count_progress:
  "(generator_call S ctx self = (Inr c, ctx', self') \<longrightarrow>
      user_command_key c = count_gen self
      \<and> count_gen self' = count_gen self + 1 \<and> count_ctx ctx' = count_ctx ctx + 1)
   \<and> (run S es (new_context, new_generator) = (rs, ctx'', self'') \<longrightarrow>
        map user_command_key (call_commands rs) = map int [1..<Suc (length (call_commands rs))]
        \<and> sorted_wrt (<) (map user_command_key (call_commands rs))
        \<and> count_ctx ctx'' = int (length (call_commands rs))
        \<and> count_gen self'' = int (length (call_commands rs)) + 1)"
proof -
  have one: "user_command_key c = count_gen self
      \<and> count_gen self' = count_gen self + 1 \<and> count_ctx ctx' = count_ctx ctx + 1"
    if "generator_call S ctx self = (Inr c, ctx', self')"
    using generator_call_returns [OF that] by simp
  have many: "map user_command_key (call_commands rs) = map int [1..<Suc (length (call_commands rs))]
        \<and> sorted_wrt (<) (map user_command_key (call_commands rs))
        \<and> count_ctx ctx'' = int (length (call_commands rs))
        \<and> count_gen self'' = int (length (call_commands rs)) + 1"
    if r: "run S es (new_context, new_generator) = (rs, ctx'', self'')"
  proof -
    let ?n = "length (call_commands rs)"
    from run_counters [OF r]
    have g: "count_gen self'' = 1 + int ?n" and x: "count_ctx ctx'' = int ?n"
      and k: "map user_command_key (call_commands rs) = map (\<lambda>i. 1 + int i) [0..<?n]"
      by (simp_all add: new_generator_def new_context_def)
    have "map (\<lambda>i. 1 + int i) [0..<?n] = map int [1..<Suc ?n]"
      by (simp add: map_Suc_upt [symmetric] del: upt_Suc)
    with k have keys: "map user_command_key (call_commands rs) = map int [1..<Suc ?n]"
      by simp
    have "sorted_wrt (<) (map int [1..<Suc ?n])"
      by (simp add: sorted_wrt_map del: upt_Suc)
    with keys have "sorted_wrt (<) (map user_command_key (call_commands rs))" by simp
    with g x keys show ?thesis by simp
  qed
  from one many show ?thesis by blast
qed

theorem command_count_progress_witness:
  "(\<exists>c ctx self.
      generator_call example_setup (StateHandler_call neutral_state new_context) new_generator
        = (Inr c, ctx, self)
      \<and> user_command_key c = 1 \<and> count_gen self = 2 \<and> count_ctx ctx = 1)
   \<and> (\<exists>rs ctx self.
        run example_setup
          [StateUpdate neutral_state, Call, VelocityUpdate [1, 0, 0], Call, Hold, Call]
          (new_context, new_generator) = (rs, ctx, self)
        \<and> map user_command_key (call_commands rs) = [1, 2, 3] \<and> count_ctx ctx = 3)"
proof -
  obtain c ctx1 self1 where g: "generator_call example_setup
      (StateHandler_call neutral_state new_context) new_generator = (Inr c, ctx1, self1)"
    by (simp add: example_defs generator_defs eval_nat_numeral)
  from command_count_progress [THEN conjunct1, THEN mp, OF g]
  have "user_command_key c = 1 \<and> count_gen self1 = 2 \<and> count_ctx ctx1 = 1"
    by (simp add: new_generator_def new_context_def StateHandler_call_def)
  with g have one: "\<exists>c ctx self.
      generator_call example_setup (StateHandler_call neutral_state new_context) new_generator
        = (Inr c, ctx, self)
      \<and> user_command_key c = 1 \<and> count_gen self = 2 \<and> count_ctx ctx = 1"
    by (intro exI [of _ c] exI [of _ ctx1] exI [of _ self1]) simp
  obtain rs ctx self where r: "run example_setup
       [StateUpdate neutral_state, Call, VelocityUpdate [1, 0, 0], Call, Hold, Call]
       (new_context, new_generator) = (rs, ctx, self)"
    by (metis prod_cases3)
  have n: "length (call_commands rs) = 3"
    using r by (auto simp: example_defs generator_defs eval_nat_numeral)
  from command_count_progress [THEN conjunct2, THEN mp, OF r] n
  have "map user_command_key (call_commands rs) = map int [1..<Suc 3] \<and> count_ctx ctx = 3"
    by simp
  then have "map user_command_key (call_commands rs) = [1, 2, 3] \<and> count_ctx ctx = 3"
    by (simp add: upt_rec)
  with r have many: "\<exists>rs ctx self.
        run example_setup
          [StateUpdate neutral_state, Call, VelocityUpdate [1, 0, 0], Call, Hold, Call]
          (new_context, new_generator) = (rs, ctx, self)
        \<and> map user_command_key (call_commands rs) = [1, 2, 3] \<and> count_ctx ctx = 3"
    by (intro exI [of _ rs] exI [of _ ctx] exI [of _ self]) simp
  from one many show ?thesis by (rule conjI)
qed

text \<open>
  C4, as stated, fails for the hold-mode variant: \<open>create_proto_hold\<close> tests
  \<open>_count == 1\<close> but only \<open>__call__\<close> advances \<open>_count\<close>. With the configuration that
  \<open>load_configuration\<close> returns for \<open>front_left_only\<close>, \<open>__call__\<close> caches the initial
  joint positions and then raises on a \<open>None\<close> offset, and every hold command built
  afterwards carries the gains.
\<close>

theorem hold_commands_repeat_gains:
  "map (\<lambda>(e, r). (e, case r of Inl x \<Rightarrow> Inl x | Inr c \<Rightarrow> Inr (cmd_gains c \<noteq> None)))
     (fst (run partial_setup [StateUpdate neutral_state, Call, Hold, Hold]
             (new_context, new_generator)))
   = [(Call, Inl TypeError), (Hold, Inr True), (Hold, Inr True)]"
  by (simp add: example_defs generator_defs eval_nat_numeral)

text \<open>
  C4, amended. \<open>create_proto\<close> and \<open>create_proto_hold\<close> attach the gain vectors exactly
  when the generator's counter \<open>_count\<close> is 1. In a session on a new generator, a command
  (of either kind) carries the gains exactly when no call of \<open>__call__\<close> has returned a
  command before it: the first command that \<open>__call__\<close> returns carries them, and every
  command produced after it omits them.
\<close>

theorem gains_while_count_is_one:
  "(create_proto S self state pos_command = Inr c \<longrightarrow>
      (cmd_gains c \<noteq> None \<longleftrightarrow> count_gen self = 1))
   \<and> (create_proto_hold S ctx self = Inr c \<longrightarrow>
        (cmd_gains c \<noteq> None \<longleftrightarrow> count_gen self = 1))
   \<and> (run S es (new_context, new_generator) = (rs, ctx', self') \<and> i < length rs
        \<and> rs ! i = (ev, Inr c') \<longrightarrow>
        (cmd_gains c' \<noteq> None \<longleftrightarrow> call_commands (take i rs) = []))"
proof -
  have a: "cmd_gains c \<noteq> None \<longleftrightarrow> count_gen self = 1"
    if "create_proto S self state pos_command = Inr c"
    using create_proto_fields [OF that] by simp
  have b: "cmd_gains c \<noteq> None \<longleftrightarrow> count_gen self = 1"
    if "create_proto_hold S ctx self = Inr c"
    using create_proto_hold_fields [OF that] by simp
  have r: "cmd_gains c' \<noteq> None \<longleftrightarrow> call_commands (take i rs) = []"
    if "run S es (new_context, new_generator) = (rs, ctx', self') \<and> i < length rs
        \<and> rs ! i = (ev, Inr c')"
  proof -
    from that have h: "run S es (new_context, new_generator) = (rs, ctx', self')"
      "i < length rs" "rs ! i = (ev, Inr c')" by simp_all
    have "cmd_gains c' \<noteq> None \<longleftrightarrow>
        count_gen new_generator + int (length (call_commands (take i rs))) = 1"
      by (rule run_gains [OF h])
    then show ?thesis by (simp add: new_generator_def)
  qed
  from a b r show ?thesis by blast
qed

theorem gains_while_count_is_one_witness:
  "(\<exists>c. create_proto example_setup new_generator neutral_state (replicate 12 0) = Inr c
         \<and> cmd_gains c \<noteq> None)
   \<and> (\<exists>c. create_proto_hold example_setup (StateHandler_call neutral_state new_context)
           (new_generator\<lparr>count_gen := 2, init_pos := Some (position neutral_state),
                           init_load := Some (load neutral_state)\<rparr>) = Inr c
         \<and> cmd_gains c = None)
   \<and> (\<exists>rs ctx self.
        run example_setup [StateUpdate neutral_state, Call, Hold, Call]
          (new_context, new_generator) = (rs, ctx, self)
        \<and> map (\<lambda>(e, r). (e, case r of Inl x \<Rightarrow> None | Inr c \<Rightarrow> Some (cmd_gains c \<noteq> None))) rs
            = [(Call, Some True), (Hold, Some False), (Call, Some False)])"
proof -
  obtain c where p: "create_proto example_setup new_generator neutral_state (replicate 12 0)
      = Inr c"
    by (simp add: example_defs create_proto_def dict_to_list_def bind_r_def)
  from gains_while_count_is_one [THEN conjunct1, THEN mp, OF p]
  have "cmd_gains c \<noteq> None" by (simp add: new_generator_def)
  with p have first: "\<exists>c. create_proto example_setup new_generator neutral_state
      (replicate 12 0) = Inr c \<and> cmd_gains c \<noteq> None"
    by blast
  let ?g = "new_generator\<lparr>count_gen := 2, init_pos := Some (position neutral_state),
                           init_load := Some (load neutral_state)\<rparr>"
  obtain h where q: "create_proto_hold example_setup
      (StateHandler_call neutral_state new_context) ?g = Inr h"
    by (simp add: example_defs create_proto_hold_def StateHandler_call_def)
  from gains_while_count_is_one [THEN conjunct2, THEN conjunct1, THEN mp, OF q]
  have "cmd_gains h = None" by (cases "cmd_gains h") (simp_all add: new_generator_def)
  with q have second: "\<exists>c. create_proto_hold example_setup
      (StateHandler_call neutral_state new_context) ?g = Inr c \<and> cmd_gains c = None"
    by blast
  obtain rs ctx self where r: "run example_setup [StateUpdate neutral_state, Call, Hold, Call]
       (new_context, new_generator) = (rs, ctx, self)"
    by (metis prod_cases3)
  then obtain c1 c2 c3 where
    rs: "rs = [(Call, Inr c1), (Hold, Inr c2), (Call, Inr c3)]"
    by (auto simp: example_defs generator_defs eval_nat_numeral)
  note at = gains_while_count_is_one [THEN conjunct2, THEN conjunct2, THEN mp]
  have "cmd_gains c1 \<noteq> None \<longleftrightarrow> call_commands (take 0 rs) = []"
    using at [of example_setup "[StateUpdate neutral_state, Call, Hold, Call]"
        rs ctx self 0 Call c1] r rs
    by simp
  moreover have "cmd_gains c2 \<noteq> None \<longleftrightarrow> call_commands (take 1 rs) = []"
    using at [of example_setup "[StateUpdate neutral_state, Call, Hold, Call]"
        rs ctx self 1 Hold c2] r rs
    by simp
  moreover have "cmd_gains c3 \<noteq> None \<longleftrightarrow> call_commands (take 2 rs) = []"
    using at [of example_setup "[StateUpdate neutral_state, Call, Hold, Call]"
        rs ctx self 2 Call c3] r rs
    by simp
  ultimately have "map (\<lambda>(e, r). (e, case r of Inl x \<Rightarrow> None | Inr c \<Rightarrow> Some (cmd_gains c \<noteq> None))) rs
         = [(Call, Some True), (Hold, Some False), (Call, Some False)]"
    using rs by (simp add: eval_nat_numeral)
  with r have third: "\<exists>rs ctx self.
        run example_setup [StateUpdate neutral_state, Call, Hold, Call]
          (new_context, new_generator) = (rs, ctx, self)
        \<and> map (\<lambda>(e, r). (e, case r of Inl x \<Rightarrow> None | Inr c \<Rightarrow> Some (cmd_gains c \<noteq> None))) rs
            = [(Call, Some True), (Hold, Some False), (Call, Some False)]"
    by (intro exI [of _ rs] exI [of _ ctx] exI [of _ self]) simp
  from first second third show ?thesis by blast
qed

section \<open>The startup ramp\<close>

lemma orbit_names: "distinct ordered_joint_names_orbit" "length ordered_joint_names_orbit = 12"
  by (simp_all add: ordered_joint_names_orbit_def)

lemma by_orbit_name:
  assumes "length xs = 12"
  shows "xs = map (\<lambda>k. xs ! first_pos ordered_joint_names_orbit k) ordered_joint_names_orbit"
proof (rule nth_equalityI)
  show "length xs
          = length (map (\<lambda>k. xs ! first_pos ordered_joint_names_orbit k) ordered_joint_names_orbit)"
    using assms orbit_names(2) by simp
next
  fix i assume "i < length xs"
  with assms orbit_names(2) have i: "i < length ordered_joint_names_orbit" by simp
  from first_pos_distinct [OF orbit_names(1) i] i
  show "xs ! i
          = map (\<lambda>k. xs ! first_pos ordered_joint_names_orbit k) ordered_joint_names_orbit ! i"
    by simp
qed

lemma post_process_well_formed:
  assumes scale: "action_scale (config S) = JNum a"
    and offs: "\<forall>k \<in> set ordered_joint_names_orbit.
                 map_of (default_joints (config S)) k = Some (JNum (d k))"
    and names: "set (ordered_joint_names_bosdyn S) \<subseteq> set ordered_joint_names_orbit"
    and len: "length out = 12"
  shows "post_process S cnt out =
           Inr (map (\<lambda>name. min (0.1 * real_of_int cnt) 1
                               * (a * out ! first_pos ordered_joint_names_orbit name) + d name)
                  (ordered_joint_names_bosdyn S))"
proof -
  let ?orbit = "ordered_joint_names_orbit"
  let ?t = "min (0.1 * real_of_int cnt) 1"
  let ?o = "\<lambda>k. out ! first_pos ?orbit k"
  have z: "zip (replicate 12 v) xs = map (Pair v) xs" if "length xs = 12" for v :: 'v and xs :: "real list"
    using that by (simp add: zip_replicate1)
  have scaled: "collect (\<lambda>(a, x). bind_r (num_of a) (\<lambda>r. Inr (r * x)))
                  (zip (replicate 12 (action_scale (config S))) out)
                = Inr (map (\<lambda>x. a * x) out)"
    unfolding z [OF len] scale
    by (induction out) (simp_all add: bind_r_def)
  have ts: "map (\<lambda>(t, x). t * x) (zip (replicate 12 ?t) (map (\<lambda>x. a * x) out))
              = map (\<lambda>k. ?t * (a * ?o k)) ?orbit"
  proof -
    have "map (\<lambda>(t, x). t * x) (zip (replicate 12 ?t) (map (\<lambda>x. a * x) out))
            = map (\<lambda>x. ?t * (a * x)) out"
      using len by (simp add: zip_replicate1 comp_def)
    also have "\<dots> = map (\<lambda>x. ?t * (a * x)) (map ?o ?orbit)"
      using by_orbit_name [OF len] by simp
    finally show ?thesis by (simp add: comp_def)
  qed
  have shifted: "collect (\<lambda>(x, d). bind_r (num_of d) (\<lambda>r. Inr (x + r)))
                   (zip (map (\<lambda>k. ?t * (a * ?o k)) ?orbit)
                        (dict_to_list (default_joints (config S)) ?orbit))
                 = Inr (map (\<lambda>k. ?t * (a * ?o k) + d k) ?orbit)"
    unfolding dict_to_list_def
    by (rule collect_zip_map) (simp add: offs bind_r_def)
  have fo: "find_ordering ?orbit (ordered_joint_names_bosdyn S)
              = Inr (map (\<lambda>k. int (first_pos ?orbit k)) (ordered_joint_names_bosdyn S))"
    using names by (rule find_ordering_subset)
  have ro: "reorder (map (\<lambda>k. ?t * (a * ?o k) + d k) ?orbit)
              (map (\<lambda>k. int (first_pos ?orbit k)) (ordered_joint_names_bosdyn S))
            = Inr (map (\<lambda>name. map (\<lambda>k. ?t * (a * ?o k) + d k) ?orbit ! first_pos ?orbit name)
                     (ordered_joint_names_bosdyn S))"
    by (rule reorder_positions) (use names list_index_mem in fastforce)
  have "map (\<lambda>name. map (\<lambda>k. ?t * (a * ?o k) + d k) ?orbit ! first_pos ?orbit name)
          (ordered_joint_names_bosdyn S)
        = map (\<lambda>name. ?t * (a * ?o name) + d name) (ordered_joint_names_bosdyn S)"
  proof (rule map_cong)
    fix name assume "name \<in> set (ordered_joint_names_bosdyn S)"
    with names have "name \<in> set ?orbit" by blast
    from list_index_mem [OF this]
    show "map (\<lambda>k. ?t * (a * ?o k) + d k) ?orbit ! first_pos ?orbit name
            = ?t * (a * ?o name) + d name"
      by simp
  qed simp
  with scaled ts shifted fo ro show ?thesis
    unfolding post_process_def Let_def by (simp add: bind_r_def)
qed

lemma generator_call_ramp:
  assumes "generator_call S ctx self = (Inr c, ctx', self')"
  shows "post_process S (count_gen self) (last_action self') = Inr (cmd_position c)"
proof -
  have cp: "cmd_position c = pos" if "create_proto S g st pos = Inr c" for g st pos
    using that unfolding create_proto_def Let_def by (auto dest!: bind_r_Inr)
  have cc: "post_process S (count_gen g) out = Inr (cmd_position c)"
    if "compute_command S ctx g st = Inr (out, c)" for g st out
    using that unfolding compute_command_def by (auto dest!: bind_r_Inr dest: cp)
  from assms show ?thesis
    unfolding generator_call_def Let_def
    by (auto split: option.splits sum.splits if_splits dest: cc)
qed

text \<open>
  C9. With a numeric action scale and offsets, the robot's joint names among the orbit
  names and a policy output of twelve values, the position targets that \<open>__call__\<close>
  computes are \<open>min(0.1 * cycle_index, 1) * (action_scale * output) + offset\<close> per joint:
  the factor is \<open>0.1 * cycle_index\<close> for a cycle index from 1 to 9 and exactly 1 from 10
  on. A call that returns uses the generator's counter as cycle index and increments
  it; the counter is 1 on a new generator, so it is one more than the number of commands
  \<open>__call__\<close> has returned.
\<close>

theorem startup_ramp:
  assumes "action_scale (config S) = JNum a"
    and "\<forall>k \<in> set ordered_joint_names_orbit.
           map_of (default_joints (config S)) k = Some (JNum (d k))"
    and "set (ordered_joint_names_bosdyn S) \<subseteq> set ordered_joint_names_orbit"
    and "length out = 12"
  shows "post_process S cnt out =
           Inr (map (\<lambda>name. min (0.1 * real_of_int cnt) 1
                               * (a * out ! first_pos ordered_joint_names_orbit name) + d name)
                  (ordered_joint_names_bosdyn S))
       \<and> (1 \<le> cnt \<and> cnt \<le> 9 \<longrightarrow>
            post_process S cnt out =
              Inr (map (\<lambda>name. 0.1 * real_of_int cnt
                                  * (a * out ! first_pos ordered_joint_names_orbit name) + d name)
                     (ordered_joint_names_bosdyn S)))
       \<and> (10 \<le> cnt \<longrightarrow>
            post_process S cnt out =
              Inr (map (\<lambda>name. 1 * (a * out ! first_pos ordered_joint_names_orbit name) + d name)
                     (ordered_joint_names_bosdyn S)))
       \<and> (generator_call S ctx self = (Inr c, ctx', self') \<longrightarrow>
            post_process S (count_gen self) (last_action self') = Inr (cmd_position c)
            \<and> count_gen self' = count_gen self + 1)
       \<and> (run S es (new_context, new_generator) = (rs, ctx'', self'') \<longrightarrow>
            count_gen self'' = 1 + int (length (call_commands rs)))"
proof -
  note pp = post_process_well_formed [OF assms, of cnt]
  have low: "min (0.1 * real_of_int cnt) 1 = 0.1 * real_of_int cnt" if "1 \<le> cnt \<and> cnt \<le> 9"
    using that by simp
  have high: "min (0.1 * real_of_int cnt) 1 = 1" if "10 \<le> cnt"
    using that by simp
  have call: "post_process S (count_gen self) (last_action self') = Inr (cmd_position c)
            \<and> count_gen self' = count_gen self + 1"
    if "generator_call S ctx self = (Inr c, ctx', self')"
    using generator_call_ramp [OF that] generator_call_returns(3) [OF that] by simp
  have runs: "count_gen self'' = 1 + int (length (call_commands rs))"
    if "run S es (new_context, new_generator) = (rs, ctx'', self'')"
    using run_counters [OF that] by (simp add: new_generator_def)
  show ?thesis using pp low high call runs by simp
qed

theorem startup_ramp_witness:
  "post_process example_setup 3 (replicate 12 1)
     = Inr [0.16, 0.96, - 1.44, - 0.04, 0.96, - 1.44, 0.16, 1.16, - 1.44, - 0.04, 1.16, - 1.44]
   \<and> post_process example_setup 12 (replicate 12 1)
     = Inr [0.3, 1.1, - 1.3, 0.1, 1.1, - 1.3, 0.3, 1.3, - 1.3, 0.1, 1.3, - 1.3]
   \<and> (\<exists>c ctx self.
        generator_call example_setup (StateHandler_call neutral_state new_context) new_generator
          = (Inr c, ctx, self)
        \<and> cmd_position c
            = [0.12, 0.92, - 1.48, - 0.08, 0.92, - 1.48, 0.12, 1.12, - 1.48, - 0.08, 1.12, - 1.48])
   \<and> (\<exists>rs ctx self.
        run example_setup [StateUpdate neutral_state, Call, Call] (new_context, new_generator)
          = (rs, ctx, self)
        \<and> count_gen self = 3)"
proof -
  define d where "d = (\<lambda>k. case map_of (default_joints standing_config) k of
                              Some (JNum r) \<Rightarrow> r | _ \<Rightarrow> 0)"
  have h1: "action_scale (config example_setup) = JNum 0.2"
    by (simp add: example_setup_def standing_config_def)
  have h2: "\<forall>k \<in> set ordered_joint_names_orbit.
           map_of (default_joints (config example_setup)) k = Some (JNum (d k))"
    by (simp add: d_def example_setup_def standing_config_def ordered_joint_names_orbit_def)
  have h3: "set (ordered_joint_names_bosdyn example_setup) \<subseteq> set ordered_joint_names_orbit"
    by (simp add: example_setup_def leg_by_leg_def ordered_joint_names_orbit_def)
  have h4: "length (replicate 12 (1::real)) = 12" by simp
  note r = startup_ramp [OF h1 h2 h3 h4]
  have "post_process example_setup 3 (replicate 12 1) =
          Inr (map (\<lambda>name. 0.1 * real_of_int 3
                 * (0.2 * replicate 12 1 ! first_pos ordered_joint_names_orbit name) + d name)
               (ordered_joint_names_bosdyn example_setup))"
    using r [of 3, THEN conjunct2, THEN conjunct1] by simp
  then have low: "post_process example_setup 3 (replicate 12 1)
     = Inr [0.16, 0.96, - 1.44, - 0.04, 0.96, - 1.44, 0.16, 1.16, - 1.44, - 0.04, 1.16, - 1.44]"
    by (simp add: d_def example_setup_def standing_config_def leg_by_leg_def
        ordered_joint_names_orbit_def)
  have "post_process example_setup 12 (replicate 12 1) =
          Inr (map (\<lambda>name. 1 * (0.2 * replicate 12 1 ! first_pos ordered_joint_names_orbit name)
                 + d name)
               (ordered_joint_names_bosdyn example_setup))"
    using r [of 12, THEN conjunct2, THEN conjunct2, THEN conjunct1] by simp
  then have high: "post_process example_setup 12 (replicate 12 1)
     = Inr [0.3, 1.1, - 1.3, 0.1, 1.1, - 1.3, 0.3, 1.3, - 1.3, 0.1, 1.3, - 1.3]"
    by (simp add: d_def example_setup_def standing_config_def leg_by_leg_def
        ordered_joint_names_orbit_def)
  obtain c ctx1 self1 where g: "generator_call example_setup
      (StateHandler_call neutral_state new_context) new_generator = (Inr c, ctx1, self1)"
    and la: "last_action self1 = replicate 12 1"
    by (simp add: example_defs generator_defs eval_nat_numeral)
  from r [of 1, THEN conjunct1]
    r [THEN conjunct2, THEN conjunct2, THEN conjunct2, THEN conjunct1, THEN mp, OF g] la
  have "Inr (cmd_position c) =
          Inr (map (\<lambda>name. min (0.1 * real_of_int 1) 1
                 * (0.2 * replicate 12 1 ! first_pos ordered_joint_names_orbit name) + d name)
               (ordered_joint_names_bosdyn example_setup))"
    by (simp add: new_generator_def)
  then have "cmd_position c
            = [0.12, 0.92, - 1.48, - 0.08, 0.92, - 1.48, 0.12, 1.12, - 1.48, - 0.08, 1.12, - 1.48]"
    by (simp add: d_def example_setup_def standing_config_def leg_by_leg_def
        ordered_joint_names_orbit_def)
  with g have call: "\<exists>c ctx self.
        generator_call example_setup (StateHandler_call neutral_state new_context) new_generator
          = (Inr c, ctx, self)
        \<and> cmd_position c
            = [0.12, 0.92, - 1.48, - 0.08, 0.92, - 1.48, 0.12, 1.12, - 1.48, - 0.08, 1.12, - 1.48]"
    by (intro exI [of _ c] exI [of _ ctx1] exI [of _ self1]) simp
  obtain rs ctx self where rn: "run example_setup [StateUpdate neutral_state, Call, Call]
       (new_context, new_generator) = (rs, ctx, self)"
    by (metis prod_cases3)
  have n: "length (call_commands rs) = 2"
    using rn by (auto simp: example_defs generator_defs eval_nat_numeral)
  from r [THEN conjunct2, THEN conjunct2, THEN conjunct2, THEN conjunct2, THEN mp, OF rn] n
  have "count_gen self = 3" by simp
  with rn have runs: "\<exists>rs ctx self.
        run example_setup [StateUpdate neutral_state, Call, Call] (new_context, new_generator)
          = (rs, ctx, self)
        \<and> count_gen self = 3"
    by (intro exI [of _ rs] exI [of _ ctx] exI [of _ self]) simp
  from low high call runs show ?thesis by blast
qed

end
